theory Spec2Isabelle
  imports Complex_Main
begin

section \<open>Values thrown by operations\<close>

text \<open>
  The core inspects caught values by duck typing. A thrown value is either a primitive
  or an object; of an object the code reads its class (\<^verbatim>\<open>instanceof RateLimitError\<close>),
  the properties \<^verbatim>\<open>status\<close>, \<^verbatim>\<open>statusCode\<close> and \<^verbatim>\<open>code\<close> (tested with \<^verbatim>\<open>in\<close> and
  \<^verbatim>\<open>typeof\<close>, so they carry any value; \<open>None\<close> is an absent property), and the numeric
  properties \<^verbatim>\<open>retryAfter\<close> and \<^verbatim>\<open>retry_after\<close>. JavaScript numbers are modelled as
  reals; \<^verbatim>\<open>name\<close>, \<^verbatim>\<open>message\<close> and \<^verbatim>\<open>stack\<close> are never read by the core and are left out.
\<close>

datatype jsval = JUndefined | JNull | JBool bool | JNum real | JStr string

datatype js_class =
  PlainObject | ErrorClass | RateLimitErrorClass | InteractionTimeoutErrorClass

record error_obj =
  cls :: js_class
  status :: "jsval option"
  statusCode :: "jsval option"
  code :: "jsval option"
  retryAfter :: "real option"
  retry_after :: "real option"
  channelId :: "string option"
  customId :: "string option"

datatype thrown = Prim jsval | Obj error_obj

definition plain_obj :: error_obj where
  "plain_obj = \<lparr>cls = PlainObject, status = None, statusCode = None, code = None,
     retryAfter = None, retry_after = None, channelId = None, customId = None\<rparr>"

text \<open>\<^verbatim>\<open>new Error('Max retries exceeded')\<close>\<close>

definition new_Error :: thrown where
  "new_Error = Obj (plain_obj\<lparr>cls := ErrorClass\<rparr>)"

text \<open>\<^verbatim>\<open>new RateLimitError(retryAfter, channelId)\<close>\<close>

definition new_RateLimitError :: "real \<Rightarrow> string option \<Rightarrow> thrown" where
  "new_RateLimitError r c =
     Obj (plain_obj\<lparr>cls := RateLimitErrorClass, retryAfter := Some r, channelId := c\<rparr>)"

text \<open>\<^verbatim>\<open>new InteractionTimeoutError(customId)\<close>\<close>

definition new_InteractionTimeoutError :: "string \<Rightarrow> thrown" where
  "new_InteractionTimeoutError i =
     Obj (plain_obj\<lparr>cls := InteractionTimeoutErrorClass, customId := Some i\<rparr>)"

section \<open>RetryHandler\<close>

record RetryOptions =
  opt_maxRetries :: "int option"
  opt_baseDelay :: "real option"
  opt_retryableCodes :: "real list option"
  opt_debug :: "bool option"

record RetryHandler =
  maxRetries :: int
  baseDelay :: real
  retryableCodes :: "real set"
  debug :: bool

definition DEFAULT_RETRYABLE_CODES :: "real list" where
  "DEFAULT_RETRYABLE_CODES = [429, 500, 502, 503, 504]"

definition no_options :: RetryOptions where
  "no_options = \<lparr>opt_maxRetries = None, opt_baseDelay = None,
     opt_retryableCodes = None, opt_debug = None\<rparr>"

definition new_RetryHandler :: "RetryOptions \<Rightarrow> RetryHandler" where
  "new_RetryHandler options =
     \<lparr>maxRetries = (case opt_maxRetries options of Some n \<Rightarrow> n | None \<Rightarrow> 3),
      baseDelay = (case opt_baseDelay options of Some d \<Rightarrow> d | None \<Rightarrow> 1000),
      retryableCodes =
        set (case opt_retryableCodes options of Some cs \<Rightarrow> cs | None \<Rightarrow> DEFAULT_RETRYABLE_CODES),
      debug = (case opt_debug options of Some b \<Rightarrow> b | None \<Rightarrow> False)\<rparr>"

definition calculateDelay :: "RetryHandler \<Rightarrow> nat \<Rightarrow> real" where
  "calculateDelay h attempt = baseDelay h * 2 ^ attempt"

definition isHttpError :: "thrown \<Rightarrow> bool" where
  "isHttpError error =
     (case error of
        Prim _ \<Rightarrow> False
      | Obj e \<Rightarrow> status e \<noteq> None \<or> statusCode e \<noteq> None \<or> code e \<noteq> None)"

definition extractStatusCode :: "thrown \<Rightarrow> real option" where
  "extractStatusCode error =
     (case error of
        Prim _ \<Rightarrow> None
      | Obj e \<Rightarrow>
          (case status e of
             Some (JNum n) \<Rightarrow> Some n
           | _ \<Rightarrow>
              (case statusCode e of
                 Some (JNum n) \<Rightarrow> Some n
               | _ \<Rightarrow>
                  (case code e of
                     Some (JNum n) \<Rightarrow> Some n
                   | _ \<Rightarrow> None))))"

definition networkErrorCodes :: "string list" where
  "networkErrorCodes =
     [''ECONNRESET'', ''ECONNREFUSED'', ''ETIMEDOUT'', ''ENOTFOUND'', ''EAI_AGAIN'']"

definition isNetworkError :: "thrown \<Rightarrow> bool" where
  "isNetworkError error =
     (case error of
        Prim _ \<Rightarrow> False
      | Obj e \<Rightarrow>
          (case code e of
             Some (JStr s) \<Rightarrow> s \<in> set networkErrorCodes
           | _ \<Rightarrow> False))"

definition instanceof_RateLimitError :: "thrown \<Rightarrow> bool" where
  "instanceof_RateLimitError error =
     (case error of Prim _ \<Rightarrow> False | Obj e \<Rightarrow> cls e = RateLimitErrorClass)"

definition isRetryableError :: "RetryHandler \<Rightarrow> thrown \<Rightarrow> bool" where
  "isRetryableError h error =
     (if instanceof_RateLimitError error then True
      else if isNetworkError error then True
      else if isHttpError error then
        (case extractStatusCode error of
           None \<Rightarrow> False
         | Some sc \<Rightarrow> sc \<in> retryableCodes h)
      else False)"

subsection \<open>Time and suspension\<close>

text \<open>
  \<^verbatim>\<open>Date.now()\<close> is the field \<open>now\<close> of the world. \<^verbatim>\<open>sleep(ms)\<close> resolves through
  \<^verbatim>\<open>setTimeout\<close>, which fires no earlier than requested and possibly later: the world
  carries a script \<open>timer_lag\<close> of how late each coming timer fires (none when the
  script is empty). Everything else a caller keeps in the world lives in the
  extension of the record.
\<close>

record clock =
  now :: real
  timer_lag :: "real list"

definition sleep :: "real \<Rightarrow> 'z clock_scheme \<Rightarrow> 'z clock_scheme" where
  "sleep ms w =
     (case timer_lag w of
        [] \<Rightarrow> w\<lparr>now := now w + max 0 ms\<rparr>
      | l # ls \<Rightarrow> w\<lparr>now := now w + max 0 ms + max 0 l, timer_lag := ls\<rparr>)"

subsection \<open>execute\<close>

text \<open>
  An operation is asynchronous work run in the world: it settles with a value
  (\<open>Inr\<close>) or a thrown value (\<open>Inl\<close>) and a new world, or never settles (\<open>None\<close>).
  A run of \<^verbatim>\<open>execute\<close> records, besides its outcome and the world it leaves, how many
  times it invoked the operation and the delays it slept, in order.
\<close>

type_synonym ('a, 's) operation = "'s \<Rightarrow> ((thrown + 'a) \<times> 's) option"

record ('a, 's) run =
  outcome :: "(thrown + 'a) option"
  invocations :: nat
  delays :: "real list"
  final :: 's

text \<open>
  \<^verbatim>\<open>lastError ?? new Error('Max retries exceeded')\<close>: \<open>lastError\<close> is \<open>None\<close> until
  something was caught, and \<^verbatim>\<open>??\<close> also passes over a caught \<^verbatim>\<open>null\<close> or \<^verbatim>\<open>undefined\<close>.
\<close>

definition nullish_or_new_Error :: "thrown option \<Rightarrow> thrown" where
  "nullish_or_new_Error lastError =
     (case lastError of
        None \<Rightarrow> new_Error
      | Some e \<Rightarrow> if e = Prim JUndefined \<or> e = Prim JNull then new_Error else e)"

function execute_loop ::
  "RetryHandler \<Rightarrow> ('a, 'z clock_scheme) operation \<Rightarrow> nat \<Rightarrow> thrown option \<Rightarrow>
     nat \<Rightarrow> real list \<Rightarrow> 'z clock_scheme \<Rightarrow> ('a, 'z clock_scheme) run" where
  "execute_loop h operation attempt lastError calls slept w =
     (if int attempt \<le> maxRetries h then
        (case operation w of
           None \<Rightarrow> \<lparr>outcome = None, invocations = calls + 1, delays = slept, final = w\<rparr>
         | Some (Inr v, w') \<Rightarrow>
             \<lparr>outcome = Some (Inr v), invocations = calls + 1, delays = slept, final = w'\<rparr>
         | Some (Inl error, w') \<Rightarrow>
             if \<not> isRetryableError h error \<or> int attempt = maxRetries h then
               \<lparr>outcome = Some (Inl error), invocations = calls + 1, delays = slept,
                final = w'\<rparr>
             else
               execute_loop h operation (attempt + 1) (Some error) (calls + 1)
                 (slept @ [calculateDelay h attempt]) (sleep (calculateDelay h attempt) w'))
      else
        \<lparr>outcome = Some (Inl (nullish_or_new_Error lastError)),
         invocations = calls, delays = slept, final = w\<rparr>)"
  by pat_completeness auto
termination
  by (relation "measure (\<lambda>(h, operation, attempt, lastError, calls, slept, w).
        nat (maxRetries h + 1 - int attempt))") auto

definition execute ::
  "RetryHandler \<Rightarrow> ('a, 'z clock_scheme) operation \<Rightarrow> 'z clock_scheme \<Rightarrow>
     ('a, 'z clock_scheme) run" where
  "execute h operation w = execute_loop h operation 0 None 0 [] w"

section \<open>RateLimitService\<close>

record TokenBucket =
  tokens :: real
  capacity :: real
  refillRate :: real
  lastRefill :: real

text \<open>
  The service owns the global bucket and the map of channel buckets. The code hands
  buckets around by reference and mutates them in place; here a reference names the
  place of the bucket in the service, and every mutation is an update at that place.
\<close>

record service = clock +
  globalBucket :: TokenBucket
  channelBuckets :: "string \<rightharpoonup> TokenBucket"
  service_debug :: bool

datatype bucket_ref = GlobalRef | ChannelRef string

datatype event = Refilled bucket_ref | Took bucket_ref | Slept real

definition GLOBAL_CAPACITY :: real where "GLOBAL_CAPACITY = 50"
definition GLOBAL_REFILL_RATE :: real where "GLOBAL_REFILL_RATE = 50"
definition CHANNEL_CAPACITY :: real where "CHANNEL_CAPACITY = 5"
definition CHANNEL_REFILL_RATE :: real where "CHANNEL_REFILL_RATE = 5"

text \<open>The constructor, run when the clock reads \<open>t\<close>.\<close>

definition new_RateLimitService :: "bool \<Rightarrow> real \<Rightarrow> real list \<Rightarrow> service" where
  "new_RateLimitService dbg t lags =
     \<lparr>now = t, timer_lag = lags,
      globalBucket = \<lparr>tokens = GLOBAL_CAPACITY, capacity = GLOBAL_CAPACITY,
        refillRate = GLOBAL_REFILL_RATE, lastRefill = t\<rparr>,
      channelBuckets = Map.empty, service_debug = dbg\<rparr>"

definition bucket_at :: "bucket_ref \<Rightarrow> 'z service_scheme \<Rightarrow> TokenBucket option" where
  "bucket_at r w = (case r of GlobalRef \<Rightarrow> Some (globalBucket w) | ChannelRef c \<Rightarrow> channelBuckets w c)"

definition update_bucket ::
  "bucket_ref \<Rightarrow> (TokenBucket \<Rightarrow> TokenBucket) \<Rightarrow> 'z service_scheme \<Rightarrow> 'z service_scheme" where
  "update_bucket r f w =
     (case r of
        GlobalRef \<Rightarrow> w\<lparr>globalBucket := f (globalBucket w)\<rparr>
      | ChannelRef c \<Rightarrow>
          (case channelBuckets w c of
             None \<Rightarrow> w
           | Some b \<Rightarrow> w\<lparr>channelBuckets := (channelBuckets w)(c \<mapsto> f b)\<rparr>))"

text \<open>The body of \<^verbatim>\<open>refillBucket\<close> on one bucket, \<open>t\<close> being the value of \<^verbatim>\<open>Date.now()\<close>.\<close>

definition refill :: "real \<Rightarrow> TokenBucket \<Rightarrow> TokenBucket" where
  "refill t bucket =
     (let timeSinceLastRefill = t - lastRefill bucket;
          tokensToAdd = (timeSinceLastRefill / 1000) * refillRate bucket
      in bucket\<lparr>tokens := min (capacity bucket) (tokens bucket + tokensToAdd),
                lastRefill := t\<rparr>)"

definition refillBucket :: "bucket_ref \<Rightarrow> 'z service_scheme \<Rightarrow> 'z service_scheme" where
  "refillBucket r w = update_bucket r (refill (now w)) w"

definition calculateWaitTime :: "TokenBucket \<Rightarrow> real" where
  "calculateWaitTime bucket = of_int \<lceil>1000 / refillRate bucket\<rceil>"

definition consume :: "TokenBucket \<Rightarrow> TokenBucket" where
  "consume bucket = bucket\<lparr>tokens := tokens bucket - 1\<rparr>"

text \<open>
  \<^verbatim>\<open>acquireFromBucket\<close> calls itself after every wait and need not return; the first
  argument bounds the number of refills it may make, and \<open>None\<close> says the bound was
  reached. A reference that names no bucket cannot be formed by the code (channel
  buckets are created before they are referred to and never removed); the model
  gives \<open>None\<close> for it as well. Besides the new world the result lists what was done.
\<close>

fun acquireFromBucket ::
  "nat \<Rightarrow> bucket_ref \<Rightarrow> 'z service_scheme \<Rightarrow> (event list \<times> 'z service_scheme) option" where
  "acquireFromBucket 0 r w = None"
| "acquireFromBucket (Suc n) r w =
     (let w1 = refillBucket r w in
      case bucket_at r w1 of
        None \<Rightarrow> None
      | Some bucket \<Rightarrow>
          if tokens bucket \<ge> 1 then
            Some ([Refilled r, Took r], update_bucket r consume w1)
          else
            (let waitTime = calculateWaitTime bucket in
             case acquireFromBucket n r (sleep waitTime w1) of
               None \<Rightarrow> None
             | Some (evs, w2) \<Rightarrow> Some (Refilled r # Slept waitTime # evs, w2)))"

definition getOrCreateChannelBucket :: "string \<Rightarrow> 'z service_scheme \<Rightarrow> 'z service_scheme" where
  "getOrCreateChannelBucket c w =
     (case channelBuckets w c of
        Some bucket \<Rightarrow> w
      | None \<Rightarrow>
          w\<lparr>channelBuckets := (channelBuckets w)(c \<mapsto>
              \<lparr>tokens = CHANNEL_CAPACITY, capacity = CHANNEL_CAPACITY,
               refillRate = CHANNEL_REFILL_RATE, lastRefill = now w\<rparr>)\<rparr>)"

definition acquireToken ::
  "nat \<Rightarrow> string \<Rightarrow> 'z service_scheme \<Rightarrow> (event list \<times> 'z service_scheme) option" where
  "acquireToken fuel c w =
     (case acquireFromBucket fuel GlobalRef w of
        None \<Rightarrow> None
      | Some (evs1, w1) \<Rightarrow>
          (case acquireFromBucket fuel (ChannelRef c) (getOrCreateChannelBucket c w1) of
             None \<Rightarrow> None
           | Some (evs2, w2) \<Rightarrow> Some (evs1 @ evs2, w2)))"

definition handleRateLimit :: "string \<Rightarrow> real \<Rightarrow> 'z service_scheme \<Rightarrow> 'z service_scheme" where
  "handleRateLimit c r w =
     (let w1 = getOrCreateChannelBucket c w in
      update_bucket (ChannelRef c) (\<lambda>bucket. bucket\<lparr>tokens := 0, lastRefill := now w1 + r\<rparr>) w1)"

text \<open>\<^verbatim>\<open>reset()\<close>: every bucket full again, refilled now.\<close>

definition reset :: "'z service_scheme \<Rightarrow> 'z service_scheme" where
  "reset w =
     w\<lparr>globalBucket :=
         (globalBucket w)\<lparr>tokens := capacity (globalBucket w), lastRefill := now w\<rparr>,
       channelBuckets :=
         (\<lambda>c. map_option (\<lambda>bucket. bucket\<lparr>tokens := capacity bucket, lastRefill := now w\<rparr>)
                (channelBuckets w c))\<rparr>"

definition isRateLimitError :: "thrown \<Rightarrow> bool" where
  "isRateLimitError error =
     (case error of
        Prim _ \<Rightarrow> False
      | Obj e \<Rightarrow>
          status e = Some (JNum 429) \<or> statusCode e = Some (JNum 429) \<or> code e = Some (JNum 429))"

text \<open>
  \<^verbatim>\<open>if (error.retryAfter)\<close> tests the property for truthiness: a number passes when it
  is not zero. The function is only reached for objects (\<open>isRateLimitError\<close> holds).
\<close>

definition extractRetryAfter :: "thrown \<Rightarrow> real" where
  "extractRetryAfter error =
     (case error of
        Prim _ \<Rightarrow> 1000
      | Obj e \<Rightarrow>
          (case retryAfter e of
             Some x \<Rightarrow>
               if x \<noteq> 0 then x
               else (case retry_after e of
                       Some y \<Rightarrow> if y \<noteq> 0 then y * 1000 else 1000
                     | None \<Rightarrow> 1000)
           | None \<Rightarrow>
               (case retry_after e of
                  Some y \<Rightarrow> if y \<noteq> 0 then y * 1000 else 1000
                | None \<Rightarrow> 1000)))"

definition executeWithRateLimit ::
  "nat \<Rightarrow> string \<Rightarrow> ('a, 'z service_scheme) operation \<Rightarrow> ('a, 'z service_scheme) operation" where
  "executeWithRateLimit fuel c operation w =
     (case acquireToken fuel c w of
        None \<Rightarrow> None
      | Some (evs, w1) \<Rightarrow>
          (case operation w1 of
             None \<Rightarrow> None
           | Some (Inr v, w2) \<Rightarrow> Some (Inr v, w2)
           | Some (Inl error, w2) \<Rightarrow>
               if isRateLimitError error then
                 (let r = extractRetryAfter error in
                  Some (Inl (new_RateLimitError r (Some c)), handleRateLimit c r w2))
               else Some (Inl error, w2)))"

section \<open>InteractionService\<close>

text \<open>
  Of the button interaction the service reads the flags \<^verbatim>\<open>replied\<close> and \<^verbatim>\<open>deferred\<close>,
  which the handler sets through the interaction when it acknowledges. The handler and
  \<^verbatim>\<open>buttonInteraction.reply\<close> belong to the caller and to discord.js: both are
  operations on the world.
\<close>

record interaction = clock +
  replied :: bool
  deferred :: bool

text \<open>The \<^verbatim>\<open>catch\<close> block of \<^verbatim>\<open>handleInteraction\<close>.\<close>

definition handler_failed ::
  "(unit, 'z interaction_scheme) operation \<Rightarrow> thrown \<Rightarrow> (unit, 'z interaction_scheme) operation" where
  "handler_failed reply error w =
     (if \<not> replied w \<and> \<not> deferred w then
        (case reply w of
           None \<Rightarrow> None
         | Some (_, w') \<Rightarrow> Some (Inl error, w'))
      else Some (Inl error, w))"

definition handleInteraction ::
  "(string \<rightharpoonup> (unit, 'z interaction_scheme) operation) \<Rightarrow>
     (unit, 'z interaction_scheme) operation \<Rightarrow> bool \<Rightarrow> string \<Rightarrow>
     (unit, 'z interaction_scheme) operation" where
  "handleInteraction handlers reply isButton cid w =
     (if \<not> isButton then Some (Inr (), w)
      else
        (case handlers cid of
           None \<Rightarrow> Some (Inr (), w)
         | Some handler \<Rightarrow>
             (let startTime = now w in
              case handler w of
                None \<Rightarrow> None
              | Some (Inl error, w1) \<Rightarrow> handler_failed reply error w1
              | Some (Inr _, w1) \<Rightarrow>
                  (let acknowledged = (replied w1 \<or> deferred w1);
                       elapsedTime = now w1 - startTime
                   in if \<not> acknowledged \<and> elapsedTime > 3000 then
                        handler_failed reply (new_InteractionTimeoutError cid) w1
                      else Some (Inr (), w1)))))"

section \<open>The classification of failures, as specified\<close>

text \<open>
  The code answers only whether a failure is retried. The specification names four
  classes; \<open>classify_stated\<close> follows its words, where the third rule asks for some
  numeric field among \<^verbatim>\<open>status\<close>, \<^verbatim>\<open>statusCode\<close>, \<^verbatim>\<open>code\<close> with a retryable value, and
  \<open>classify\<close> differs in that rule only: it looks at the first numeric field of the
  three, in that order.
\<close>

datatype ErrorClassification = RateLimited | NetworkTransient | HttpTransient | Fatal

definition numeric_fields :: "thrown \<Rightarrow> real list" where
  "numeric_fields error =
     (case error of
        Prim _ \<Rightarrow> []
      | Obj e \<Rightarrow>
          concat (map (\<lambda>f. case f of Some (JNum n) \<Rightarrow> [n] | _ \<Rightarrow> [])
            [status e, statusCode e, code e]))"

definition has_network_code :: "thrown \<Rightarrow> bool" where
  "has_network_code error =
     (case error of
        Prim _ \<Rightarrow> False
      | Obj e \<Rightarrow>
          code e \<in> Some ` JStr `
            {''ECONNRESET'', ''ECONNREFUSED'', ''ETIMEDOUT'', ''ENOTFOUND'', ''EAI_AGAIN''})"

definition classify_stated :: "RetryHandler \<Rightarrow> thrown \<Rightarrow> ErrorClassification" where
  "classify_stated h error =
     (if instanceof_RateLimitError error then RateLimited
      else if has_network_code error then NetworkTransient
      else if list_ex (\<lambda>n. n \<in> retryableCodes h) (numeric_fields error) then HttpTransient
      else Fatal)"

definition classify :: "RetryHandler \<Rightarrow> thrown \<Rightarrow> ErrorClassification" where
  "classify h error =
     (if instanceof_RateLimitError error then RateLimited
      else if has_network_code error then NetworkTransient
      else if (case numeric_fields error of [] \<Rightarrow> False | n # _ \<Rightarrow> n \<in> retryableCodes h)
        then HttpTransient
      else Fatal)"

section \<open>Concrete inputs\<close>

text \<open>An object literal \<^verbatim>\<open>{ status: n }\<close>, as the tests throw it.\<close>

definition error_with_status :: "real \<Rightarrow> thrown" where
  "error_with_status n = Obj (plain_obj\<lparr>status := Some (JNum n)\<rparr>)"

text \<open>\<^verbatim>\<open>{ status: 404, statusCode: 503 }\<close>\<close>

definition error_404_503 :: thrown where
  "error_404_503 = Obj (plain_obj\<lparr>status := Some (JNum 404), statusCode := Some (JNum 503)\<rparr>)"

text \<open>\<^verbatim>\<open>jest.fn().mockRejectedValue(error)\<close>: every invocation throws \<open>error\<close> at once.\<close>

definition always_throws :: "thrown \<Rightarrow> ('a, 's) operation" where
  "always_throws error w = Some (Inl error, w)"

definition default_handler :: RetryHandler where
  "default_handler = new_RetryHandler no_options"

definition handler_with_maxRetries :: "int \<Rightarrow> RetryHandler" where
  "handler_with_maxRetries n = new_RetryHandler (no_options\<lparr>opt_maxRetries := Some n\<rparr>)"

definition clock_at :: "real \<Rightarrow> clock" where
  "clock_at t = \<lparr>now = t, timer_lag = []\<rparr>"

text \<open>A service constructed when the clock reads 0, with punctual timers.\<close>

definition fresh_service :: service where
  "fresh_service = new_RateLimitService False 0 []"

text \<open>\<^verbatim>\<open>{ status: 429, retryAfter: 0, retry_after: 2 }\<close>\<close>

definition error_429_zero_2s :: thrown where
  "error_429_zero_2s =
     Obj (plain_obj\<lparr>status := Some (JNum 429), retryAfter := Some 0, retry_after := Some 2\<rparr>)"

text \<open>
  A button handler that takes \<open>d\<close> milliseconds, acknowledges (defers) on the way when
  \<open>ack\<close> holds, and then returns, or throws \<open>failure\<close>.
\<close>

definition slow_handler :: "real \<Rightarrow> bool \<Rightarrow> thrown option \<Rightarrow> (unit, interaction) operation" where
  "slow_handler d ack failure w =
     Some (case failure of None \<Rightarrow> Inr () | Some e \<Rightarrow> Inl e,
           w\<lparr>now := now w + d, deferred := deferred w \<or> ack\<rparr>)"

text \<open>\<^verbatim>\<open>buttonInteraction.reply\<close> succeeding.\<close>

definition reply_ok :: "(unit, interaction) operation" where
  "reply_ok w = Some (Inr (), w\<lparr>replied := True\<rparr>)"

definition dispatched :: interaction where
  "dispatched = \<lparr>now = 0, timer_lag = [], replied = False, deferred = False\<rparr>"

section \<open>The cooldown of a 429 error, as specified\<close>

text \<open>
  \<open>cooldown_stated\<close> follows the words of the specification: \<^verbatim>\<open>retryAfter\<close> in milliseconds if
  present, otherwise \<^verbatim>\<open>retry_after\<close> in seconds if present, otherwise 1000.
  \<open>cooldown\<close> takes a field only when it is present and not zero.
\<close>

definition cooldown_stated :: "thrown \<Rightarrow> real" where
  "cooldown_stated error =
     (case error of
        Prim _ \<Rightarrow> 1000
      | Obj e \<Rightarrow>
          (case (retryAfter e, retry_after e) of
             (Some ms, _) \<Rightarrow> ms
           | (None, Some secs) \<Rightarrow> secs * 1000
           | (None, None) \<Rightarrow> 1000))"

definition present_nonzero :: "real option \<Rightarrow> real option" where
  "present_nonzero v = (if v = Some 0 then None else v)"

definition cooldown :: "thrown \<Rightarrow> real" where
  "cooldown error =
     (case error of
        Prim _ \<Rightarrow> 1000
      | Obj e \<Rightarrow>
          (case (present_nonzero (retryAfter e), present_nonzero (retry_after e)) of
             (Some ms, _) \<Rightarrow> ms
           | (None, Some secs) \<Rightarrow> secs * 1000
           | (None, None) \<Rightarrow> 1000))"

section \<open>Runs of the rate limiter\<close>

text \<open>What \<open>k\<close> unsuccessful polls of a bucket do: refill, then sleep the wait time.\<close>

definition polls :: "bucket_ref \<Rightarrow> real \<Rightarrow> nat \<Rightarrow> event list" where
  "polls r waitTime k = concat (replicate k [Refilled r, Slept waitTime])"

text \<open>
  The time at which the bucket, refilled at its rate and never capped, holds exactly
  zero tokens. Refills and deductions never move it back.
\<close>

definition zero_time :: "TokenBucket \<Rightarrow> real" where
  "zero_time bucket = lastRefill bucket - tokens bucket * 1000 / refillRate bucket"

text \<open>
  What a caller does after a depletion signal: let time pass, acquire tokens for any
  channels, and pass on further depletion signals.
\<close>

datatype activity = Elapse real | Acquire string | Signal string real

fun perform :: "nat \<Rightarrow> activity list \<Rightarrow> 'z service_scheme \<Rightarrow> 'z service_scheme option" where
  "perform fuel [] w = Some w"
| "perform fuel (Elapse d # acts) w = perform fuel acts (sleep d w)"
| "perform fuel (Acquire c # acts) w =
     (case acquireToken fuel c w of
        None \<Rightarrow> None
      | Some (evs, w') \<Rightarrow> perform fuel acts w')"
| "perform fuel (Signal c r # acts) w = perform fuel acts (handleRateLimit c r w)"

text \<open>The channels that a list of activities signals as depleted.\<close>

fun signalled :: "activity list \<Rightarrow> string set" where
  "signalled [] = {}"
| "signalled (Signal c r # acts) = insert c (signalled acts)"
| "signalled (_ # acts) = signalled acts"

text \<open>
  A channel is cooling until \<open>D\<close> when its bucket could not hold zero tokens before
  \<open>D\<close>.
\<close>

definition cooling_until :: "real \<Rightarrow> string \<Rightarrow> 'z service_scheme \<Rightarrow> bool" where
  "cooling_until D c w =
     (case channelBuckets w c of
        None \<Rightarrow> False
      | Some b \<Rightarrow> 0 < refillRate b \<and> D \<le> zero_time b)"






text \<open>
  A world in which the operation itself counts how often it was invoked, and an
  operation that counts and then throws \<open>error\<close>.
\<close>

record counted = clock +
  calls_made :: nat

definition counting_throws :: "thrown \<Rightarrow> ('a, counted) operation" where
  "counting_throws error w = Some (Inl error, w\<lparr>calls_made := calls_made w + 1\<rparr>)"

definition counted_at :: "real \<Rightarrow> nat \<Rightarrow> counted" where
  "counted_at t n = \<lparr>now = t, timer_lag = [], calls_made = n\<rparr>"

section \<open>Properties of execute\<close>

declare execute_loop.simps [simp del]

lemma execute_loop_exit:
  "\<not> int attempt \<le> maxRetries h \<Longrightarrow>
   execute_loop h operation attempt lastError calls slept w =
     \<lparr>outcome = Some (Inl (nullish_or_new_Error lastError)),
      invocations = calls, delays = slept, final = w\<rparr>"
  by (subst execute_loop.simps) simp

lemma execute_loop_pending:
  "int attempt \<le> maxRetries h \<Longrightarrow> operation w = None \<Longrightarrow>
   execute_loop h operation attempt lastError calls slept w =
     \<lparr>outcome = None, invocations = calls + 1, delays = slept, final = w\<rparr>"
  by (subst execute_loop.simps) simp

lemma execute_loop_returns:
  "int attempt \<le> maxRetries h \<Longrightarrow> operation w = Some (Inr v, w') \<Longrightarrow>
   execute_loop h operation attempt lastError calls slept w =
     \<lparr>outcome = Some (Inr v), invocations = calls + 1, delays = slept, final = w'\<rparr>"
  by (subst execute_loop.simps) simp

lemma execute_loop_rethrows:
  "int attempt \<le> maxRetries h \<Longrightarrow> operation w = Some (Inl error, w') \<Longrightarrow>
   \<not> isRetryableError h error \<or> int attempt = maxRetries h \<Longrightarrow>
   execute_loop h operation attempt lastError calls slept w =
     \<lparr>outcome = Some (Inl error), invocations = calls + 1, delays = slept, final = w'\<rparr>"
  by (subst execute_loop.simps) auto

lemma execute_loop_retries:
  "int attempt < maxRetries h \<Longrightarrow> operation w = Some (Inl error, w') \<Longrightarrow>
   isRetryableError h error \<Longrightarrow>
   execute_loop h operation attempt lastError calls slept w =
     execute_loop h operation (attempt + 1) (Some error) (calls + 1)
       (slept @ [calculateDelay h attempt]) (sleep (calculateDelay h attempt) w')"
  by (subst execute_loop.simps) simp

text \<open>The five cases are exhaustive.\<close>

lemma execute_loop_cases:
  obtains (exit) "\<not> int attempt \<le> maxRetries h"
  | (pending) "int attempt \<le> maxRetries h" "operation w = None"
  | (returns) v w' where "int attempt \<le> maxRetries h" "operation w = Some (Inr v, w')"
  | (rethrows) error w' where "int attempt \<le> maxRetries h" "operation w = Some (Inl error, w')"
      "\<not> isRetryableError h error \<or> int attempt = maxRetries h"
  | (retries) error w' where "int attempt < maxRetries h" "operation w = Some (Inl error, w')"
      "isRetryableError h error"
proof (cases "int attempt \<le> maxRetries h")
  case False
  then show ?thesis by (rule exit)
next
  case True
  show ?thesis
  proof (cases "operation w")
    case None
    with True show ?thesis by (rule pending)
  next
    case (Some p)
    then show ?thesis
      using True returns rethrows retries
      by (cases p; cases "fst p") (auto, force)
  qed
qed

lemma execute_loop_invocations_le:
  "invocations (execute_loop h operation attempt lastError calls slept w)
     \<le> calls + nat (maxRetries h + 1 - int attempt)"
proof (induction "nat (maxRetries h + 1 - int attempt)" arbitrary: attempt lastError calls slept w)
  case 0
  then have "\<not> int attempt \<le> maxRetries h" by simp
  then show ?case by (simp add: execute_loop_exit)
next
  case (Suc k)
  then have le: "int attempt \<le> maxRetries h" by simp
  show ?case
  proof (cases rule: execute_loop_cases[where attempt=attempt and h=h and operation=operation and w=w])
    case exit
    with le show ?thesis by simp
  next
    case pending
    then show ?thesis using le by (simp add: execute_loop_pending)
  next
    case (returns v w')
    then show ?thesis using le by (simp add: execute_loop_returns)
  next
    case (rethrows error w')
    then show ?thesis using le by (simp add: execute_loop_rethrows)
  next
    case (retries error w')
    have "k = nat (maxRetries h + 1 - int (attempt + 1))" using Suc.hyps(2) by simp
    from Suc.hyps(1)[OF this]
    have "invocations (execute_loop h operation (attempt + 1) (Some error) (calls + 1)
            (slept @ [calculateDelay h attempt]) (sleep (calculateDelay h attempt) w'))
          \<le> calls + 1 + nat (maxRetries h + 1 - int (attempt + 1))" .
    moreover have "nat (maxRetries h + 1 - int attempt)
        = 1 + nat (maxRetries h + 1 - int (attempt + 1))"
      using retries(1) by simp
    ultimately show ?thesis
      using retries by (simp add: execute_loop_retries)
  qed
qed

lemma execute_loop_delays:
  "\<exists>k. delays (execute_loop h operation attempt lastError calls slept w)
          = slept @ map (calculateDelay h) [attempt ..< attempt + k] \<and>
       invocations (execute_loop h operation attempt lastError calls slept w)
          = calls + k + (if int attempt \<le> maxRetries h then 1 else 0)"
proof (induction "nat (maxRetries h + 1 - int attempt)" arbitrary: attempt lastError calls slept w)
  case 0
  then have "\<not> int attempt \<le> maxRetries h" by simp
  then show ?case by (simp add: execute_loop_exit)
next
  case (Suc n)
  then have le: "int attempt \<le> maxRetries h" by simp
  show ?case
  proof (cases rule: execute_loop_cases[where attempt=attempt and h=h and operation=operation and w=w])
    case exit
    with le show ?thesis by simp
  next
    case pending
    then show ?thesis using le by (simp add: execute_loop_pending)
  next
    case (returns v w')
    then show ?thesis using le by (simp add: execute_loop_returns)
  next
    case (rethrows error w')
    then show ?thesis using le by (simp add: execute_loop_rethrows)
  next
    case (retries error w')
    let ?r = "execute_loop h operation (attempt + 1) (Some error) (calls + 1)
            (slept @ [calculateDelay h attempt]) (sleep (calculateDelay h attempt) w')"
    have "n = nat (maxRetries h + 1 - int (attempt + 1))" using Suc.hyps(2) by simp
    from Suc.hyps(1)[OF this]
    obtain k where k: "delays ?r
          = (slept @ [calculateDelay h attempt]) @ map (calculateDelay h) [attempt + 1 ..< attempt + 1 + k]"
       "invocations ?r = calls + 1 + k + (if int (attempt + 1) \<le> maxRetries h then 1 else 0)"
      by blast
    have eq: "execute_loop h operation attempt lastError calls slept w = ?r"
      using retries by (rule execute_loop_retries)
    have "[attempt ..< attempt + Suc k] = attempt # [attempt + 1 ..< attempt + 1 + k]"
      by (simp add: upt_rec)
    then have "delays ?r = slept @ map (calculateDelay h) [attempt ..< attempt + Suc k]"
      using k(1) by simp
    moreover have "invocations ?r = calls + Suc k + (if int attempt \<le> maxRetries h then 1 else 0)"
      using k(2) retries(1) by simp
    ultimately show ?thesis unfolding eq by blast
  qed
qed

lemma execute_loop_thrown:
  assumes "int attempt \<le> maxRetries h"
    and "outcome (execute_loop h operation attempt lastError calls slept w) = Some (Inl e)"
  shows "\<exists>w3. operation w3 = Some (Inl e, final (execute_loop h operation attempt lastError calls slept w)) \<and>
     (\<not> isRetryableError h e \<or>
      invocations (execute_loop h operation attempt lastError calls slept w)
        = calls + nat (maxRetries h - int attempt) + 1)"
  using assms
proof (induction "nat (maxRetries h - int attempt)" arbitrary: attempt lastError calls slept w)
  case 0
  then have last: "int attempt = maxRetries h" by simp
  show ?case
  proof (cases rule: execute_loop_cases[where attempt=attempt and h=h and operation=operation and w=w])
    case exit
    with last show ?thesis by simp
  next
    case pending
    then show ?thesis using "0.prems" by (simp add: execute_loop_pending)
  next
    case (returns v w')
    then show ?thesis using "0.prems" by (simp add: execute_loop_returns)
  next
    case (rethrows error w')
    then show ?thesis using "0.prems" last by (auto simp add: execute_loop_rethrows)
  next
    case (retries error w')
    with last show ?thesis by simp
  qed
next
  case (Suc n)
  then have lt: "int attempt < maxRetries h" by simp
  show ?case
  proof (cases rule: execute_loop_cases[where attempt=attempt and h=h and operation=operation and w=w])
    case exit
    with lt show ?thesis by simp
  next
    case pending
    then show ?thesis using Suc.prems by (simp add: execute_loop_pending)
  next
    case (returns v w')
    then show ?thesis using Suc.prems by (simp add: execute_loop_returns)
  next
    case (rethrows error w')
    then show ?thesis using Suc.prems lt by (auto simp add: execute_loop_rethrows)
  next
    case (retries error w')
    let ?r = "execute_loop h operation (attempt + 1) (Some error) (calls + 1)
            (slept @ [calculateDelay h attempt]) (sleep (calculateDelay h attempt) w')"
    have eq: "execute_loop h operation attempt lastError calls slept w = ?r"
      using retries by (rule execute_loop_retries)
    have n: "n = nat (maxRetries h - int (attempt + 1))" using Suc.hyps(2) by simp
    have le': "int (attempt + 1) \<le> maxRetries h" using lt by simp
    have out: "outcome ?r = Some (Inl e)" using Suc.prems(2) eq by simp
    from Suc.hyps(1)[OF n le' out]
    obtain w3 where w3: "operation w3 = Some (Inl e, final ?r)"
      "\<not> isRetryableError h e \<or>
         invocations ?r = calls + 1 + nat (maxRetries h - int (attempt + 1)) + 1"
      by blast
    have "nat (maxRetries h - int attempt) = 1 + nat (maxRetries h - int (attempt + 1))"
      using lt by simp
    with w3 show ?thesis unfolding eq by auto
  qed
qed

lemma execute_loop_always_retryable:
  assumes "int attempt \<le> maxRetries h"
    and "\<forall>w. \<exists>e w'. operation w = Some (Inl e, w') \<and> isRetryableError h e"
  shows "invocations (execute_loop h operation attempt lastError calls slept w)
           = calls + nat (maxRetries h - int attempt) + 1 \<and>
         (\<exists>e. outcome (execute_loop h operation attempt lastError calls slept w) = Some (Inl e))"
  using assms(1)
proof (induction "nat (maxRetries h - int attempt)" arbitrary: attempt lastError calls slept w)
  case 0
  then have last: "int attempt = maxRetries h" by simp
  from assms(2) obtain e w' where "operation w = Some (Inl e, w')" by blast
  then show ?case using last by (simp add: execute_loop_rethrows)
next
  case (Suc n)
  then have lt: "int attempt < maxRetries h" by simp
  from assms(2) obtain e w' where op: "operation w = Some (Inl e, w')" "isRetryableError h e"
    by blast
  let ?r = "execute_loop h operation (attempt + 1) (Some e) (calls + 1)
            (slept @ [calculateDelay h attempt]) (sleep (calculateDelay h attempt) w')"
  have eq: "execute_loop h operation attempt lastError calls slept w = ?r"
    using lt op by (rule execute_loop_retries)
  have n: "n = nat (maxRetries h - int (attempt + 1))" using Suc.hyps(2) by simp
  have le': "int (attempt + 1) \<le> maxRetries h" using lt by simp
  have "nat (maxRetries h - int attempt) = 1 + nat (maxRetries h - int (attempt + 1))"
    using lt by simp
  with Suc.hyps(1)[OF n le'] show ?case unfolding eq by simp
qed

lemma sleep_keeps_count [simp]: "calls_made (sleep d w) = calls_made w"
  by (simp add: sleep_def split: list.splits)

lemma execute_loop_counts:
  assumes counts: "\<forall>v r v'. operation v = Some (r, v') \<longrightarrow> cnt v' = cnt v + 1"
    and asleep: "\<forall>d v. cnt (sleep d v) = cnt v"
  shows "cnt (final (execute_loop h operation attempt lastError calls slept w)) + calls +
           (if outcome (execute_loop h operation attempt lastError calls slept w) = None then 1 else 0)
         = cnt w + invocations (execute_loop h operation attempt lastError calls slept w)"
proof (induction "nat (maxRetries h + 1 - int attempt)" arbitrary: attempt lastError calls slept w)
  case 0
  then have "\<not> int attempt \<le> maxRetries h" by simp
  then show ?case by (simp add: execute_loop_exit)
next
  case (Suc n)
  then have le: "int attempt \<le> maxRetries h" by simp
  show ?case
  proof (cases rule: execute_loop_cases[where attempt=attempt and h=h and operation=operation and w=w])
    case exit
    with le show ?thesis by simp
  next
    case pending
    then show ?thesis by (simp add: execute_loop_pending)
  next
    case (returns v w')
    with counts have "cnt w' = cnt w + 1" by blast
    with returns show ?thesis by (simp add: execute_loop_returns)
  next
    case (rethrows error w')
    with counts have "cnt w' = cnt w + 1" by blast
    with rethrows show ?thesis by (simp add: execute_loop_rethrows)
  next
    case (retries error w')
    let ?r = "execute_loop h operation (attempt + 1) (Some error) (calls + 1)
            (slept @ [calculateDelay h attempt]) (sleep (calculateDelay h attempt) w')"
    have eq: "execute_loop h operation attempt lastError calls slept w = ?r"
      using retries by (rule execute_loop_retries)
    have "n = nat (maxRetries h + 1 - int (attempt + 1))" using Suc.hyps(2) by simp
    from Suc.hyps(1)[OF this]
    have "cnt (final ?r) + (calls + 1) + (if outcome ?r = None then 1 else 0)
        = cnt (sleep (calculateDelay h attempt) w') + invocations ?r" .
    moreover have "cnt (sleep (calculateDelay h attempt) w') = cnt w + 1"
      using counts asleep retries(2) by simp
    ultimately show ?thesis unfolding eq by simp
  qed
qed

lemma execute_three_attempts:
  assumes "maxRetries h = 2"
    and "operation w = Some (Inl e0, w0)" "isRetryableError h e0"
    and "operation (sleep (calculateDelay h 0) w0) = Some (Inl e1, w1)" "isRetryableError h e1"
    and "operation (sleep (calculateDelay h 1) w1) = Some (Inl e2, w2)"
  shows "execute h operation w =
     \<lparr>outcome = Some (Inl e2), invocations = 3,
      delays = [calculateDelay h 0, calculateDelay h 1], final = w2\<rparr>"
proof -
  have "execute h operation w =
      execute_loop h operation 1 (Some e0) 1 [calculateDelay h 0] (sleep (calculateDelay h 0) w0)"
    unfolding execute_def using assms(1,2,3) by (simp add: execute_loop_retries)
  also have "\<dots> = execute_loop h operation 2 (Some e1) 2 [calculateDelay h 0, calculateDelay h 1]
      (sleep (calculateDelay h 1) w1)"
    using assms(1,4,5)
      execute_loop_retries[of 1 h operation "sleep (calculateDelay h 0) w0" e1 w1 "Some e0" 1
        "[calculateDelay h 0]"]
    by (simp add: numeral_2_eq_2)
  also have "\<dots> = \<lparr>outcome = Some (Inl e2), invocations = 3,
      delays = [calculateDelay h 0, calculateDelay h 1], final = w2\<rparr>"
    using assms(1,6)
      execute_loop_rethrows[of 2 h operation "sleep (calculateDelay h 1) w1" e2 w2 "Some e1" 2
        "[calculateDelay h 0, calculateDelay h 1]"]
    by simp
  finally show ?thesis .
qed

text \<open>
  C1. With \<open>maxRetries = n\<close> (a non-negative integer), \<open>execute\<close> invokes the operation at
  most \<open>n + 1\<close> times: that bounds the invocations it records, and for an operation
  that counts its own invocations in the world, the count it leaves differs from the
  recorded number only by an invocation that never settled. With \<open>maxRetries = 2\<close> and
  an operation that fails with a retryable error on every invocation, the operation
  is invoked exactly 3 times: at the first world, at the world after the first
  failure and the first delay, and at the world after the second failure and the
  second delay; \<open>execute\<close> then throws the error of the third invocation and leaves
  the world of the third invocation.
\<close>

theorem C1_execute_invocations:
  "(0 \<le> maxRetries h \<longrightarrow> int (invocations (execute h operation w)) \<le> maxRetries h + 1) \<and>
   ((\<forall>v r v'. operation v = Some (r, v') \<longrightarrow> cnt v' = cnt v + 1) \<longrightarrow>
    (\<forall>d v. cnt (sleep d v) = cnt v) \<longrightarrow>
      cnt (final (execute h operation w)) +
          (if outcome (execute h operation w) = None then 1 else 0)
        = cnt w + invocations (execute h operation w) \<and>
      (0 \<le> maxRetries h \<longrightarrow>
         int (cnt (final (execute h operation w))) \<le> int (cnt w) + maxRetries h + 1)) \<and>
   (maxRetries h = 2 \<longrightarrow>
    (\<forall>w. \<exists>e w'. operation w = Some (Inl e, w') \<and> isRetryableError h e) \<longrightarrow>
      invocations (execute h operation w) = 3 \<and>
      (\<exists>e w3. operation w3 = Some (Inl e, final (execute h operation w)) \<and>
         outcome (execute h operation w) = Some (Inl e))) \<and>
   (maxRetries h = 2 \<longrightarrow>
    operation w = Some (Inl e0, w0) \<longrightarrow> isRetryableError h e0 \<longrightarrow>
    operation (sleep (baseDelay h) w0) = Some (Inl e1, w1) \<longrightarrow> isRetryableError h e1 \<longrightarrow>
    operation (sleep (baseDelay h * 2) w1) = Some (Inl e2, w2) \<longrightarrow>
      execute h operation w =
        \<lparr>outcome = Some (Inl e2), invocations = 3,
         delays = [baseDelay h, baseDelay h * 2], final = w2\<rparr>)"
proof (intro conjI impI)
  assume "0 \<le> maxRetries h"
  moreover have "invocations (execute h operation w) \<le> 0 + nat (maxRetries h + 1 - int 0)"
    unfolding execute_def by (rule execute_loop_invocations_le)
  ultimately show "int (invocations (execute h operation w)) \<le> maxRetries h + 1"
    by simp
next
  assume counts: "\<forall>v r v'. operation v = Some (r, v') \<longrightarrow> cnt v' = cnt v + 1"
    and asleep: "\<forall>d v. cnt (sleep d v) = cnt v"
  from execute_loop_counts[OF counts asleep, of h 0 None 0 "[]" w]
  show eq: "cnt (final (execute h operation w)) +
          (if outcome (execute h operation w) = None then 1 else 0)
        = cnt w + invocations (execute h operation w)"
    unfolding execute_def by simp
  assume "0 \<le> maxRetries h"
  moreover have "invocations (execute h operation w) \<le> 0 + nat (maxRetries h + 1 - int 0)"
    unfolding execute_def by (rule execute_loop_invocations_le)
  ultimately have "int (invocations (execute h operation w)) \<le> maxRetries h + 1"
    by simp
  moreover from eq
  have "cnt (final (execute h operation w)) \<le> cnt w + invocations (execute h operation w)"
    by linarith
  ultimately show "int (cnt (final (execute h operation w))) \<le> int (cnt w) + maxRetries h + 1"
    by linarith
next
  assume two: "maxRetries h = 2"
    and fails: "\<forall>w. \<exists>e w'. operation w = Some (Inl e, w') \<and> isRetryableError h e"
  have le: "int 0 \<le> maxRetries h" using two by simp
  from execute_loop_always_retryable[OF le fails, of None 0 "[]" w]
  obtain e where n: "invocations (execute h operation w) = 3"
    and e: "outcome (execute h operation w) = Some (Inl e)"
    using two unfolding execute_def by auto
  show "invocations (execute h operation w) = 3" by (rule n)
  from execute_loop_thrown[OF le e[unfolded execute_def]]
  show "\<exists>e w3. operation w3 = Some (Inl e, final (execute h operation w)) \<and>
         outcome (execute h operation w) = Some (Inl e)"
    using e unfolding execute_def by blast
next
  assume "maxRetries h = 2" "operation w = Some (Inl e0, w0)" "isRetryableError h e0"
    "operation (sleep (baseDelay h) w0) = Some (Inl e1, w1)" "isRetryableError h e1"
    "operation (sleep (baseDelay h * 2) w1) = Some (Inl e2, w2)"
  then show "execute h operation w =
        \<lparr>outcome = Some (Inl e2), invocations = 3,
         delays = [baseDelay h, baseDelay h * 2], final = w2\<rparr>"
    using execute_three_attempts[of h operation w e0 w0 e1 w1 e2 w2]
    by (simp add: calculateDelay_def)
qed

theorem C1_execute_invocations_witness:
  "maxRetries (handler_with_maxRetries 2) = 2 \<and>
   isRetryableError (handler_with_maxRetries 2) (new_RateLimitError 100 None) \<and>
   (counting_throws (new_RateLimitError 100 None) :: (unit, counted) operation) (counted_at 0 0)
     = Some (Inl (new_RateLimitError 100 None), counted_at 0 1) \<and>
   (counting_throws (new_RateLimitError 100 None) :: (unit, counted) operation)
      (sleep (baseDelay (handler_with_maxRetries 2)) (counted_at 0 1))
     = Some (Inl (new_RateLimitError 100 None), counted_at 1000 2) \<and>
   (counting_throws (new_RateLimitError 100 None) :: (unit, counted) operation)
      (sleep (baseDelay (handler_with_maxRetries 2) * 2) (counted_at 1000 2))
     = Some (Inl (new_RateLimitError 100 None), counted_at 3000 3) \<and>
   execute (handler_with_maxRetries 2)
      (counting_throws (new_RateLimitError 100 None) :: (unit, counted) operation) (counted_at 0 0)
     = \<lparr>outcome = Some (Inl (new_RateLimitError 100 None)), invocations = 3,
        delays = [1000, 2000], final = counted_at 3000 3\<rparr> \<and>
   calls_made (counted_at 3000 3) = 3 \<and>
   0 \<le> maxRetries (handler_with_maxRetries 2) \<and>
   (\<forall>v. \<exists>v'. (counting_throws (new_RateLimitError 100 None) :: (unit, counted) operation) v
        = Some (Inl (new_RateLimitError 100 None), v') \<and>
      calls_made v' = calls_made v + 1) \<and>
   (\<forall>d (v :: counted). calls_made (sleep d v) = calls_made v)"
proof -
  let ?h = "handler_with_maxRetries 2"
  let ?e = "new_RateLimitError 100 None"
  let ?op = "counting_throws ?e :: (unit, counted) operation"
  have m: "maxRetries ?h = 2" and b: "baseDelay ?h = 1000"
    by (simp_all add: handler_with_maxRetries_def new_RetryHandler_def no_options_def)
  have r: "isRetryableError ?h ?e"
    by (simp add: isRetryableError_def instanceof_RateLimitError_def new_RateLimitError_def)
  have 1: "?op (counted_at 0 0) = Some (Inl ?e, counted_at 0 1)"
    by (simp add: counting_throws_def counted_at_def)
  have 2: "?op (sleep (baseDelay ?h) (counted_at 0 1)) = Some (Inl ?e, counted_at 1000 2)"
    by (simp add: b counting_throws_def counted_at_def sleep_def)
  have 3: "?op (sleep (baseDelay ?h * 2) (counted_at 1000 2)) = Some (Inl ?e, counted_at 3000 3)"
    by (simp add: b counting_throws_def counted_at_def sleep_def)
  from C1_execute_invocations[of ?h ?op "counted_at 0 0" calls_made ?e "counted_at 0 1"
      ?e "counted_at 1000 2" ?e "counted_at 3000 3"] m r 1 2 3
  have "execute ?h ?op (counted_at 0 0)
     = \<lparr>outcome = Some (Inl ?e), invocations = 3, delays = [1000, 2000],
        final = counted_at 3000 3\<rparr>"
    by (simp add: b)
  moreover have "\<forall>v. \<exists>v'. ?op v = Some (Inl ?e, v') \<and> calls_made v' = calls_made v + 1"
    by (simp add: counting_throws_def)
  moreover have "\<forall>d (v :: counted). calls_made (sleep d v) = calls_made v"
    by simp
  moreover have "calls_made (counted_at 3000 3) = 3" by (simp add: counted_at_def)
  ultimately show ?thesis using m r 1 2 3 by simp
qed

text \<open>
  C5. When the first invocation throws an error that is not retryable (\<open>Fatal\<close>),
  \<open>execute\<close> invokes the operation once, sleeps no delay and leaves the world as the
  operation left it, and throws that error. An error with status 403 is of that
  kind for the default handler.
\<close>

theorem C5_fatal_error_not_retried:
  "(0 \<le> maxRetries h \<longrightarrow> operation w = Some (Inl e, w') \<longrightarrow> \<not> isRetryableError h e \<longrightarrow>
      execute h operation w =
        \<lparr>outcome = Some (Inl e), invocations = 1, delays = [], final = w'\<rparr>) \<and>
   \<not> isRetryableError default_handler (error_with_status 403)"
proof (intro conjI impI)
  assume "0 \<le> maxRetries h" "operation w = Some (Inl e, w')" "\<not> isRetryableError h e"
  then show "execute h operation w =
        \<lparr>outcome = Some (Inl e), invocations = 1, delays = [], final = w'\<rparr>"
    unfolding execute_def by (simp add: execute_loop_rethrows)
next
  show "\<not> isRetryableError default_handler (error_with_status 403)"
    by (simp add: isRetryableError_def instanceof_RateLimitError_def isNetworkError_def
        isHttpError_def extractStatusCode_def error_with_status_def plain_obj_def
        default_handler_def new_RetryHandler_def no_options_def DEFAULT_RETRYABLE_CODES_def)
qed

theorem C5_fatal_error_not_retried_witness:
  "0 \<le> maxRetries default_handler \<and>
   (always_throws (error_with_status 403) :: (unit, clock) operation) (clock_at 0)
      = Some (Inl (error_with_status 403), clock_at 0) \<and>
   \<not> isRetryableError default_handler (error_with_status 403) \<and>
   execute default_handler (always_throws (error_with_status 403) :: (unit, clock) operation)
      (clock_at 0) =
     \<lparr>outcome = Some (Inl (error_with_status 403)), invocations = 1, delays = [],
      final = clock_at 0\<rparr>"
  using C5_fatal_error_not_retried[of default_handler
      "always_throws (error_with_status 403) :: (unit, clock) operation" "clock_at 0"
      "error_with_status 403" "clock_at 0"]
  by (simp add: always_throws_def default_handler_def new_RetryHandler_def no_options_def)

text \<open>
  C9. The delay for attempt \<open>n\<close> is \<open>baseDelay * 2 ^ n\<close>; with \<open>baseDelay = 1000\<close> the
  attempts 0, 1, 2, 3 give 1000, 2000, 4000, 8000. The delays that \<open>execute\<close> sleeps
  are those of the attempts 0, 1, 2, ... in order, one before each retry.
\<close>

theorem C9_exponential_backoff:
  "calculateDelay h n = baseDelay h * 2 ^ n \<and>
   map (calculateDelay default_handler) [0, 1, 2, 3] = [1000, 2000, 4000, 8000] \<and>
   delays (execute h operation w)
     = map (\<lambda>n. baseDelay h * 2 ^ n) [0 ..< invocations (execute h operation w) - 1]"
proof (intro conjI)
  show "calculateDelay h n = baseDelay h * 2 ^ n" by (simp add: calculateDelay_def)
  show "map (calculateDelay default_handler) [0, 1, 2, 3] = [1000, 2000, 4000, 8000]"
    by (simp add: calculateDelay_def default_handler_def new_RetryHandler_def no_options_def)
  from execute_loop_delays[of h operation 0 None 0 "[]" w]
  obtain k where k: "delays (execute h operation w) = map (calculateDelay h) [0 ..< k]"
    "invocations (execute h operation w) = k + (if 0 \<le> maxRetries h then 1 else 0)"
    unfolding execute_def by auto
  have "delays (execute h operation w)
     = map (calculateDelay h) [0 ..< invocations (execute h operation w) - 1]"
  proof (cases "0 \<le> maxRetries h")
    case True
    with k show ?thesis by simp
  next
    case False
    then have "execute h operation w =
       \<lparr>outcome = Some (Inl new_Error), invocations = 0, delays = [], final = w\<rparr>"
      unfolding execute_def by (simp add: execute_loop_exit nullish_or_new_Error_def)
    then show ?thesis by simp
  qed
  then show "delays (execute h operation w)
     = map (\<lambda>n. baseDelay h * 2 ^ n) [0 ..< invocations (execute h operation w) - 1]"
    by (simp add: calculateDelay_def)
qed

section \<open>Classification\<close>

lemma has_network_code_iff: "has_network_code error = isNetworkError error"
  by (auto simp add: has_network_code_def isNetworkError_def networkErrorCodes_def
      split: thrown.splits option.splits jsval.splits)

lemma first_numeric_field:
  "(case numeric_fields error of [] \<Rightarrow> None | n # _ \<Rightarrow> Some n) = extractStatusCode error"
  by (simp add: numeric_fields_def extractStatusCode_def
      split: thrown.splits option.splits jsval.splits)

lemma extractStatusCode_needs_field:
  "\<not> isHttpError error \<Longrightarrow> extractStatusCode error = None"
  by (auto simp add: isHttpError_def extractStatusCode_def split: thrown.splits)

text \<open>
  C2 (as stated) fails: an object with \<^verbatim>\<open>status: 404\<close> and \<^verbatim>\<open>statusCode: 503\<close> carries a
  numeric field with a retryable value, yet it is not retried, because only the first
  numeric field is looked at.
\<close>

theorem C2_counterexample:
  "classify_stated default_handler error_404_503 = HttpTransient \<and>
   \<not> isRetryableError default_handler error_404_503"
  by (simp add: classify_stated_def isRetryableError_def instanceof_RateLimitError_def
      has_network_code_def isNetworkError_def isHttpError_def extractStatusCode_def
      numeric_fields_def error_404_503_def plain_obj_def default_handler_def
      new_RetryHandler_def no_options_def DEFAULT_RETRYABLE_CODES_def)

text \<open>
  C2 (amended). A failure is retried exactly when its class is not \<open>Fatal\<close>, the class
  being: \<open>RateLimited\<close> for an instance of \<^verbatim>\<open>RateLimitError\<close>; else \<open>NetworkTransient\<close> when
  \<^verbatim>\<open>code\<close> is one of the five network code strings; else \<open>HttpTransient\<close> when the first
  numeric field among \<^verbatim>\<open>status\<close>, \<^verbatim>\<open>statusCode\<close>, \<^verbatim>\<open>code\<close>, in that order, has a value in
  the retryable set; else \<open>Fatal\<close>.
\<close>

theorem C2_classification_precedence:
  "isRetryableError h error = (classify h error \<noteq> Fatal)"
proof (cases "instanceof_RateLimitError error \<or> isNetworkError error")
  case True
  then show ?thesis
    by (auto simp add: isRetryableError_def classify_def has_network_code_iff)
next
  case False
  show ?thesis
  proof (cases "extractStatusCode error")
    case None
    then have "numeric_fields error = []"
      using first_numeric_field[of error] by (simp split: list.splits)
    with False None show ?thesis
      by (simp add: isRetryableError_def classify_def has_network_code_iff)
  next
    case (Some n)
    then have "isHttpError error" using extractStatusCode_needs_field by fastforce
    moreover obtain ns where "numeric_fields error = n # ns"
      using first_numeric_field[of error] Some by (auto split: list.splits)
    ultimately show ?thesis using False Some
      by (simp add: isRetryableError_def classify_def has_network_code_iff)
  qed
qed

section \<open>Errors thrown to the caller\<close>

lemma fresh_service_grants:
  "\<exists>evs w1. acquireToken 1 ''c'' fresh_service = Some (evs, w1)"
  by (simp add: acquireToken_def refillBucket_def update_bucket_def bucket_at_def refill_def
      getOrCreateChannelBucket_def fresh_service_def new_RateLimitService_def
      GLOBAL_CAPACITY_def GLOBAL_REFILL_RATE_def CHANNEL_CAPACITY_def CHANNEL_REFILL_RATE_def)

lemma executeWithRateLimit_429:
  "\<exists>s'. executeWithRateLimit 1 ''c'' (always_throws (error_with_status 429)) fresh_service
     = Some (Inl (new_RateLimitError 1000 (Some ''c'')), s')"
proof -
  from fresh_service_grants obtain evs w1
    where "acquireToken 1 ''c'' fresh_service = Some (evs, w1)" by blast
  then show ?thesis
    by (simp add: executeWithRateLimit_def always_throws_def isRateLimitError_def
        extractRetryAfter_def error_with_status_def plain_obj_def)
qed

text \<open>
  C4 (as stated) fails on the rate-limited path: when the operation throws an object
  with status 429, \<open>executeWithRateLimit\<close> throws a new \<^verbatim>\<open>RateLimitError\<close> in its place,
  and that is what \<open>execute\<close> throws to the caller once the budget (here no retry) is
  used up.
\<close>

theorem C4_counterexample:
  "outcome (execute (handler_with_maxRetries 0)
      (executeWithRateLimit 1 ''c'' (always_throws (error_with_status 429) :: (unit, service) operation))
      fresh_service)
     = Some (Inl (new_RateLimitError 1000 (Some ''c''))) \<and>
   new_RateLimitError 1000 (Some ''c'') \<noteq> error_with_status 429"
proof -
  let ?op = "executeWithRateLimit 1 ''c'' (always_throws (error_with_status 429) :: (unit, service) operation)"
  from executeWithRateLimit_429 obtain w' where
    op: "?op fresh_service = Some (Inl (new_RateLimitError 1000 (Some ''c'')), w')"
    by blast
  have m: "maxRetries (handler_with_maxRetries 0) = 0"
    by (simp add: handler_with_maxRetries_def new_RetryHandler_def no_options_def)
  have "execute (handler_with_maxRetries 0) ?op fresh_service =
     \<lparr>outcome = Some (Inl (new_RateLimitError 1000 (Some ''c''))), invocations = 1,
      delays = [], final = w'\<rparr>"
    unfolding execute_def using op m by (simp add: execute_loop_rethrows)
  moreover have "new_RateLimitError 1000 (Some ''c'') \<noteq> error_with_status 429"
    by (simp add: new_RateLimitError_def error_with_status_def plain_obj_def)
  ultimately show ?thesis by simp
qed

text \<open>
  C4 (amended). Whatever \<open>execute\<close> throws was thrown by the last invocation of the
  operation it was given, and either is not retryable or came from invocation
  \<open>maxRetries + 1\<close>. \<open>executeWithRateLimit\<close> throws on what the wrapped operation threw,
  unchanged, unless that is a 429 error: then it throws a new \<^verbatim>\<open>RateLimitError\<close> with the
  extracted cooldown and the channel.
\<close>

theorem C4_thrown_error_origin:
  "(0 \<le> maxRetries h \<longrightarrow> outcome (execute h operation w) = Some (Inl e) \<longrightarrow>
      (\<exists>w3. operation w3 = Some (Inl e, final (execute h operation w))) \<and>
      (isRetryableError h e \<longrightarrow> int (invocations (execute h operation w)) = maxRetries h + 1)) \<and>
   (executeWithRateLimit fuel c inner s = Some (Inl e', s') \<longrightarrow>
      (\<exists>s1 s2 e0. inner s1 = Some (Inl e0, s2) \<and>
         (if isRateLimitError e0
          then e' = new_RateLimitError (extractRetryAfter e0) (Some c)
          else e' = e0 \<and> s' = s2)))"
proof (intro conjI impI)
  assume m: "0 \<le> maxRetries h" and out: "outcome (execute h operation w) = Some (Inl e)"
  have le: "int 0 \<le> maxRetries h" using m by simp
  from execute_loop_thrown[OF le out[unfolded execute_def]]
  obtain w3 where w3: "operation w3 = Some (Inl e, final (execute h operation w))"
    "\<not> isRetryableError h e \<or> invocations (execute h operation w) = nat (maxRetries h) + 1"
    unfolding execute_def by auto
  from w3(1) show "\<exists>w3. operation w3 = Some (Inl e, final (execute h operation w))" ..
  assume "isRetryableError h e"
  with w3(2) m show "int (invocations (execute h operation w)) = maxRetries h + 1" by simp
next
  assume "executeWithRateLimit fuel c inner s = Some (Inl e', s')"
  then show "\<exists>s1 s2 e0. inner s1 = Some (Inl e0, s2) \<and>
         (if isRateLimitError e0
          then e' = new_RateLimitError (extractRetryAfter e0) (Some c)
          else e' = e0 \<and> s' = s2)"
    by (auto simp add: executeWithRateLimit_def Let_def
        split: option.splits prod.splits sum.splits if_splits)
qed

theorem C4_thrown_error_origin_witness:
  "0 \<le> maxRetries default_handler \<and>
   outcome (execute default_handler
      (always_throws (error_with_status 403) :: (unit, clock) operation) (clock_at 0))
     = Some (Inl (error_with_status 403)) \<and>
   (\<exists>w3. (always_throws (error_with_status 403) :: (unit, clock) operation) w3
      = Some (Inl (error_with_status 403),
          final (execute default_handler
            (always_throws (error_with_status 403) :: (unit, clock) operation) (clock_at 0)))) \<and>
   \<not> isRetryableError default_handler (error_with_status 403) \<and>
   (\<exists>s'. executeWithRateLimit 1 ''c''
      (always_throws (error_with_status 429) :: (unit, service) operation) fresh_service
      = Some (Inl (new_RateLimitError 1000 (Some ''c'')), s')) \<and>
   isRateLimitError (error_with_status 429) \<and>
   extractRetryAfter (error_with_status 429) = 1000"
proof -
  let ?op = "always_throws (error_with_status 403) :: (unit, clock) operation"
  let ?inner = "always_throws (error_with_status 429) :: (unit, service) operation"
  have m: "0 \<le> maxRetries default_handler"
    by (simp add: default_handler_def new_RetryHandler_def no_options_def)
  have f: "\<not> isRetryableError default_handler (error_with_status 403)"
    by (simp add: isRetryableError_def instanceof_RateLimitError_def isNetworkError_def
        isHttpError_def extractStatusCode_def error_with_status_def plain_obj_def
        default_handler_def new_RetryHandler_def no_options_def DEFAULT_RETRYABLE_CODES_def)
  have out: "outcome (execute default_handler ?op (clock_at 0)) = Some (Inl (error_with_status 403))"
    unfolding execute_def using m f by (simp add: execute_loop_rethrows always_throws_def)
  from executeWithRateLimit_429 obtain s' where
    rl: "executeWithRateLimit 1 ''c'' ?inner fresh_service
           = Some (Inl (new_RateLimitError 1000 (Some ''c'')), s')"
    by blast
  have x: "isRateLimitError (error_with_status 429)" "extractRetryAfter (error_with_status 429) = 1000"
    by (simp_all add: isRateLimitError_def extractRetryAfter_def error_with_status_def plain_obj_def)
  from C4_thrown_error_origin[of default_handler ?op "clock_at 0" "error_with_status 403"
      1 "''c''" ?inner fresh_service "new_RateLimitError 1000 (Some ''c'')" s'] m out rl
  have "\<exists>w3. ?op w3 = Some (Inl (error_with_status 403),
          final (execute default_handler ?op (clock_at 0)))"
    by blast
  with m out f rl x show ?thesis by blast
qed

section \<open>The cooldown taken from a 429 error\<close>

lemma extractRetryAfter_cooldown: "extractRetryAfter error = cooldown error"
  by (simp add: extractRetryAfter_def cooldown_def present_nonzero_def
      split: thrown.splits option.splits)

lemma handleRateLimit_bucket:
  "\<exists>b. channelBuckets (handleRateLimit c r w) c = Some b \<and> tokens b = 0 \<and>
     lastRefill b = now w + r \<and>
     capacity b = (case channelBuckets w c of Some b0 \<Rightarrow> capacity b0 | None \<Rightarrow> CHANNEL_CAPACITY) \<and>
     refillRate b = (case channelBuckets w c of Some b0 \<Rightarrow> refillRate b0 | None \<Rightarrow> CHANNEL_REFILL_RATE)"
  by (simp add: handleRateLimit_def getOrCreateChannelBucket_def update_bucket_def Let_def
      split: option.splits)

text \<open>
  C10 (as stated) fails: for \<^verbatim>\<open>{ status: 429, retryAfter: 0, retry_after: 2 }\<close> the field
  \<^verbatim>\<open>retryAfter\<close> is present, so the stated cooldown is 0 ms, but the code tests the
  field for truthiness, passes over the zero and takes 2000 ms from \<^verbatim>\<open>retry_after\<close>.
\<close>

theorem C10_counterexample:
  "isRateLimitError error_429_zero_2s \<and>
   cooldown_stated error_429_zero_2s = 0 \<and>
   extractRetryAfter error_429_zero_2s = 2000"
  by (simp add: isRateLimitError_def cooldown_stated_def extractRetryAfter_def
      error_429_zero_2s_def plain_obj_def)

text \<open>
  C10 (amended). When the operation run by \<open>executeWithRateLimit\<close> throws an error whose
  \<^verbatim>\<open>status\<close>, \<^verbatim>\<open>statusCode\<close> or \<^verbatim>\<open>code\<close> is the number 429, the cooldown is \<^verbatim>\<open>retryAfter\<close>
  (milliseconds) if that is present and not zero, otherwise \<^verbatim>\<open>retry_after\<close> times 1000
  if that is present and not zero, otherwise 1000; the channel bucket is depleted with
  that cooldown (tokens 0, lastRefill = now + cooldown) and a \<^verbatim>\<open>RateLimitError\<close> carrying
  the same cooldown and the channel is thrown.
\<close>

theorem C10_rate_limit_cooldown:
  "acquireToken fuel c w = Some (evs, w1) \<longrightarrow> operation w1 = Some (Inl error, w2) \<longrightarrow>
   isRateLimitError error \<longrightarrow>
     executeWithRateLimit fuel c operation w
       = Some (Inl (new_RateLimitError (cooldown error) (Some c)),
               handleRateLimit c (cooldown error) w2) \<and>
     (\<exists>b. channelBuckets (handleRateLimit c (cooldown error) w2) c = Some b \<and>
        tokens b = 0 \<and> lastRefill b = now w2 + cooldown error)"
proof (intro impI conjI)
  assume "acquireToken fuel c w = Some (evs, w1)" "operation w1 = Some (Inl error, w2)"
    "isRateLimitError error"
  then show "executeWithRateLimit fuel c operation w
       = Some (Inl (new_RateLimitError (cooldown error) (Some c)),
               handleRateLimit c (cooldown error) w2)"
    by (simp add: executeWithRateLimit_def extractRetryAfter_cooldown Let_def)
  from handleRateLimit_bucket[of c "cooldown error" w2]
  show "\<exists>b. channelBuckets (handleRateLimit c (cooldown error) w2) c = Some b \<and>
        tokens b = 0 \<and> lastRefill b = now w2 + cooldown error"
    by blast
qed

theorem C10_rate_limit_cooldown_witness:
  "(\<exists>evs w1. acquireToken 1 ''c'' fresh_service = Some (evs, w1) \<and>
      (always_throws error_429_zero_2s :: (unit, service) operation) w1
        = Some (Inl error_429_zero_2s, w1) \<and>
      executeWithRateLimit 1 ''c'' (always_throws error_429_zero_2s :: (unit, service) operation)
          fresh_service
        = Some (Inl (new_RateLimitError 2000 (Some ''c'')), handleRateLimit ''c'' 2000 w1) \<and>
      (\<exists>b. channelBuckets (handleRateLimit ''c'' 2000 w1) ''c'' = Some b \<and>
         tokens b = 0 \<and> lastRefill b = now w1 + 2000)) \<and>
   isRateLimitError error_429_zero_2s \<and> cooldown error_429_zero_2s = 2000"
proof -
  from fresh_service_grants obtain evs w1
    where a: "acquireToken 1 ''c'' fresh_service = Some (evs, w1)" by blast
  have t: "(always_throws error_429_zero_2s :: (unit, service) operation) w1
        = Some (Inl error_429_zero_2s, w1)"
    by (simp add: always_throws_def)
  have i: "isRateLimitError error_429_zero_2s"
    by (simp add: isRateLimitError_def error_429_zero_2s_def plain_obj_def)
  have c: "cooldown error_429_zero_2s = 2000"
    by (simp add: cooldown_def present_nonzero_def error_429_zero_2s_def plain_obj_def)
  from C10_rate_limit_cooldown[of 1 "''c''" fresh_service evs w1
      "always_throws error_429_zero_2s :: (unit, service) operation" error_429_zero_2s w1] a t i c
  show ?thesis by auto
qed

section \<open>The acknowledgment deadline\<close>

text \<open>
  C8 (as stated) fails when the handler raises a failure: a handler that never
  acknowledges, runs 3100 ms and throws has its own error thrown on; no timeout
  error is raised, since the deadline is only checked after the handler returned.
\<close>

theorem C8_counterexample:
  "map_option fst
     (handleInteraction [''b'' \<mapsto> slow_handler 3100 False (Some new_Error)] reply_ok True ''b''
        dispatched)
     = Some (Inl new_Error) \<and>
   new_Error \<noteq> new_InteractionTimeoutError ''b''"
  by (simp add: handleInteraction_def handler_failed_def slow_handler_def reply_ok_def
      dispatched_def new_Error_def new_InteractionTimeoutError_def plain_obj_def)

text \<open>
  C8 (amended). For a dispatched button handler (and a \<^verbatim>\<open>reply\<close> that settles): when the
  handler returns, \<^verbatim>\<open>InteractionTimeoutError\<close> is thrown if and only if the interaction
  is neither replied nor deferred and more than 3000 ms passed since dispatch, and
  otherwise \<open>handleInteraction\<close> returns; when the handler throws, its error is thrown
  on. A handler that never acknowledges and returns after 3100 ms gets the timeout
  error; one that acknowledges and returns after 5000 ms does not.
\<close>

theorem C8_deadline_after_return:
  "(handlers cid = Some handler \<longrightarrow> handler w = Some (r, w1) \<longrightarrow> reply w1 = Some (x, w2) \<longrightarrow>
     (case r of
        Inr _ \<Rightarrow>
          (if \<not> replied w1 \<and> \<not> deferred w1 \<and> now w1 - now w > 3000
           then handleInteraction handlers reply True cid w
                  = Some (Inl (new_InteractionTimeoutError cid), w2)
           else handleInteraction handlers reply True cid w = Some (Inr (), w1))
      | Inl e \<Rightarrow>
          handleInteraction handlers reply True cid w
            = Some (Inl e, if \<not> replied w1 \<and> \<not> deferred w1 then w2 else w1))) \<and>
   map_option fst
     (handleInteraction [''b'' \<mapsto> slow_handler 3100 False None] reply_ok True ''b'' dispatched)
     = Some (Inl (new_InteractionTimeoutError ''b'')) \<and>
   map_option fst
     (handleInteraction [''b'' \<mapsto> slow_handler 5000 True None] reply_ok True ''b'' dispatched)
     = Some (Inr ())"
proof (intro conjI impI)
  assume "handlers cid = Some handler" "handler w = Some (r, w1)" "reply w1 = Some (x, w2)"
  then show "case r of
        Inr _ \<Rightarrow>
          (if \<not> replied w1 \<and> \<not> deferred w1 \<and> now w1 - now w > 3000
           then handleInteraction handlers reply True cid w
                  = Some (Inl (new_InteractionTimeoutError cid), w2)
           else handleInteraction handlers reply True cid w = Some (Inr (), w1))
      | Inl e \<Rightarrow>
          handleInteraction handlers reply True cid w
            = Some (Inl e, if \<not> replied w1 \<and> \<not> deferred w1 then w2 else w1)"
    by (auto simp add: handleInteraction_def handler_failed_def Let_def split: sum.splits)
next
  show "map_option fst
     (handleInteraction [''b'' \<mapsto> slow_handler 3100 False None] reply_ok True ''b'' dispatched)
     = Some (Inl (new_InteractionTimeoutError ''b''))"
    by (simp add: handleInteraction_def handler_failed_def slow_handler_def reply_ok_def
        dispatched_def)
next
  show "map_option fst
     (handleInteraction [''b'' \<mapsto> slow_handler 5000 True None] reply_ok True ''b'' dispatched)
     = Some (Inr ())"
    by (simp add: handleInteraction_def handler_failed_def slow_handler_def reply_ok_def
        dispatched_def)
qed

theorem C8_deadline_after_return_witness:
  "[''b'' \<mapsto> slow_handler 3100 False None] ''b'' = Some (slow_handler 3100 False None) \<and>
   slow_handler 3100 False None dispatched = Some (Inr (), dispatched\<lparr>now := 3100\<rparr>) \<and>
   reply_ok (dispatched\<lparr>now := 3100\<rparr>) = Some (Inr (), dispatched\<lparr>now := 3100, replied := True\<rparr>) \<and>
   handleInteraction [''b'' \<mapsto> slow_handler 3100 False None] reply_ok True ''b'' dispatched
     = Some (Inl (new_InteractionTimeoutError ''b''), dispatched\<lparr>now := 3100, replied := True\<rparr>)"
proof -
  have h: "slow_handler 3100 False None dispatched = Some (Inr (), dispatched\<lparr>now := 3100\<rparr>)"
    by (simp add: slow_handler_def dispatched_def)
  have r: "reply_ok (dispatched\<lparr>now := 3100\<rparr>)
      = Some (Inr (), dispatched\<lparr>now := 3100, replied := True\<rparr>)"
    by (simp add: reply_ok_def)
  from C8_deadline_after_return[of "[''b'' \<mapsto> slow_handler 3100 False None]" "''b''"
      "slow_handler 3100 False None" dispatched "Inr ()" "dispatched\<lparr>now := 3100\<rparr>"
      reply_ok "Inr ()" "dispatched\<lparr>now := 3100, replied := True\<rparr>"] h r
  show ?thesis by (simp add: dispatched_def)
qed

section \<open>Buckets\<close>

lemma refill_fields [simp]:
  "capacity (refill t b) = capacity b" "refillRate (refill t b) = refillRate b"
  "lastRefill (refill t b) = t"
  "tokens (refill t b) = min (capacity b) (tokens b + (t - lastRefill b) / 1000 * refillRate b)"
  by (simp_all add: refill_def Let_def)

lemma consume_fields [simp]:
  "capacity (consume b) = capacity b" "refillRate (consume b) = refillRate b"
  "lastRefill (consume b) = lastRefill b" "tokens (consume b) = tokens b - 1"
  by (simp_all add: consume_def)

lemma refill_le_capacity: "tokens (refill t b) \<le> capacity b"
  by simp

lemma scaled_mono:
  fixes x y r :: real
  assumes "0 < r" "x \<le> y"
  shows "x * 1000 / r \<le> y * 1000 / r"
  using assms by (simp add: divide_right_mono)

lemma zero_time_refill:
  assumes "0 < refillRate b"
  shows "zero_time b \<le> zero_time (refill t b)"
proof -
  let ?x = "tokens b + (t - lastRefill b) / 1000 * refillRate b"
  have "tokens (refill t b) \<le> ?x" by simp
  from scaled_mono[OF assms this]
  have "tokens (refill t b) * 1000 / refillRate b \<le> ?x * 1000 / refillRate b" .
  also have "?x * 1000 / refillRate b = tokens b * 1000 / refillRate b + (t - lastRefill b)"
    using assms by (simp add: add_divide_distrib distrib_right)
  finally have "tokens (refill t b) * 1000 / refillRate b
      \<le> tokens b * 1000 / refillRate b + (t - lastRefill b)" .
  then show ?thesis unfolding zero_time_def by simp
qed

lemma zero_time_consume:
  assumes "0 < refillRate b"
  shows "zero_time b \<le> zero_time (consume b)"
proof -
  have "zero_time (consume b) = zero_time b + 1000 / refillRate b"
    by (simp add: zero_time_def left_diff_distrib diff_divide_distrib)
  with assms show ?thesis by simp
qed

lemma zero_time_granted:
  assumes "0 < refillRate b" "1 \<le> tokens b"
  shows "zero_time b + 1000 / refillRate b \<le> lastRefill b"
proof -
  from scaled_mono[OF assms]
  have "1000 / refillRate b \<le> tokens b * 1000 / refillRate b" by simp
  then show ?thesis by (simp add: zero_time_def)
qed

subsection \<open>The store\<close>

lemma bucket_at_update_same [simp]:
  "bucket_at r (update_bucket r f w) = map_option f (bucket_at r w)"
  by (simp add: bucket_at_def update_bucket_def split: bucket_ref.splits option.splits)

lemma bucket_at_update_other [simp]:
  "r' \<noteq> r \<Longrightarrow> bucket_at r' (update_bucket r f w) = bucket_at r' w"
  by (auto simp add: bucket_at_def update_bucket_def split: bucket_ref.splits option.splits)

lemma clock_update_bucket [simp]:
  "now (update_bucket r f w) = now w" "timer_lag (update_bucket r f w) = timer_lag w"
  by (simp_all add: update_bucket_def split: bucket_ref.splits option.splits)

lemma bucket_at_sleep [simp]: "bucket_at r (sleep d w) = bucket_at r w"
  by (simp add: bucket_at_def sleep_def split: bucket_ref.splits list.splits)

lemma now_sleep: "now w \<le> now (sleep d w)"
  by (simp add: sleep_def split: list.splits)

lemma now_sleep_punctual: "timer_lag w = [] \<Longrightarrow> now (sleep d w) = now w + max 0 d"
  by (simp add: sleep_def)

lemma bucket_at_refillBucket_same [simp]:
  "bucket_at r (refillBucket r w) = map_option (refill (now w)) (bucket_at r w)"
  by (simp add: refillBucket_def)

lemma bucket_at_refillBucket_other [simp]:
  "r' \<noteq> r \<Longrightarrow> bucket_at r' (refillBucket r w) = bucket_at r' w"
  by (simp add: refillBucket_def)

lemma clock_refillBucket [simp]:
  "now (refillBucket r w) = now w" "timer_lag (refillBucket r w) = timer_lag w"
  by (simp_all add: refillBucket_def)

subsection \<open>One step of an acquisition\<close>

lemma acquireFromBucket_granted:
  assumes "bucket_at r w = Some b" "1 \<le> tokens (refill (now w) b)"
  shows "acquireFromBucket (Suc n) r w
    = Some ([Refilled r, Took r], update_bucket r consume (refillBucket r w))"
  using assms by simp

lemma acquireFromBucket_waits:
  assumes "bucket_at r w = Some b" "\<not> 1 \<le> tokens (refill (now w) b)"
  shows "acquireFromBucket (Suc n) r w
    = map_option (\<lambda>(evs, w'). (Refilled r # Slept (calculateWaitTime b) # evs, w'))
        (acquireFromBucket n r (sleep (calculateWaitTime b) (refillBucket r w)))"
  using assms by (simp add: calculateWaitTime_def Let_def split: option.splits)

lemma acquireFromBucket_dangling:
  assumes "bucket_at r w = None"
  shows "acquireFromBucket n r w = None"
  using assms by (cases n) simp_all

declare acquireFromBucket.simps(2) [simp del]

lemma acquireFromBucket_induct [consumes 2, case_names granted waits]:
  assumes "acquireFromBucket n r w = Some (evs, w')" and "bucket_at r w = Some b0"
    and granted: "\<And>w b. bucket_at r w = Some b \<Longrightarrow> 1 \<le> tokens (refill (now w) b) \<Longrightarrow>
          P w b [Refilled r, Took r] (update_bucket r consume (refillBucket r w))"
    and waits: "\<And>w b evs w'. bucket_at r w = Some b \<Longrightarrow> \<not> 1 \<le> tokens (refill (now w) b) \<Longrightarrow>
          P (sleep (calculateWaitTime b) (refillBucket r w)) (refill (now w) b) evs w' \<Longrightarrow>
          P w b (Refilled r # Slept (calculateWaitTime b) # evs) w'"
  shows "P w b0 evs w'"
  using assms(1,2)
proof (induction n arbitrary: w b0 evs)
  case 0
  then show ?case by simp
next
  case (Suc n)
  show ?case
  proof (cases "1 \<le> tokens (refill (now w) b0)")
    case True
    with Suc.prems granted[OF Suc.prems(2) True] show ?thesis
      by (simp add: acquireFromBucket_granted)
  next
    case False
    let ?w1 = "sleep (calculateWaitTime b0) (refillBucket r w)"
    from Suc.prems False obtain evs1
      where rec: "acquireFromBucket n r ?w1 = Some (evs1, w')"
        and evs: "evs = Refilled r # Slept (calculateWaitTime b0) # evs1"
      by (auto simp add: acquireFromBucket_waits)
    have "bucket_at r ?w1 = Some (refill (now w) b0)"
      using Suc.prems(2) by simp
    from Suc.IH[OF rec this] have "P ?w1 (refill (now w) b0) evs1 w'" .
    from waits[OF Suc.prems(2) False this] show ?thesis by (simp add: evs)
  qed
qed

lemma calculateWaitTime_refill [simp]:
  "calculateWaitTime (refill t b) = calculateWaitTime b"
  by (simp add: calculateWaitTime_def)

lemma acquireFromBucket_events:
  assumes "acquireFromBucket n r w = Some (evs, w')" and "bucket_at r w = Some b0"
  shows "\<exists>k. evs = polls r (calculateWaitTime b0) k @ [Refilled r, Took r]"
  using assms
proof (induct rule: acquireFromBucket_induct)
  case (granted w b)
  have "[Refilled r, Took r] = polls r (calculateWaitTime b) 0 @ [Refilled r, Took r]"
    by (simp add: polls_def)
  then show ?case by blast
next
  case (waits w b evs w')
  then obtain k where "evs = polls r (calculateWaitTime b) k @ [Refilled r, Took r]"
    by auto
  then have "Refilled r # Slept (calculateWaitTime b) # evs
      = polls r (calculateWaitTime b) (Suc k) @ [Refilled r, Took r]"
    by (simp add: polls_def)
  then show ?case by blast
qed

lemma acquireFromBucket_bucket:
  assumes "acquireFromBucket n r w = Some (evs, w')" and "bucket_at r w = Some b0"
  shows "\<exists>b. bucket_at r w' = Some b \<and> capacity b = capacity b0 \<and>
     refillRate b = refillRate b0 \<and> lastRefill b = now w' \<and>
     0 \<le> tokens b \<and> tokens b \<le> capacity b - 1"
  using assms
proof (induct rule: acquireFromBucket_induct)
  case (granted w b)
  then show ?case by simp
next
  case (waits w b evs w')
  then show ?case by simp
qed

lemma acquireFromBucket_frame:
  assumes "acquireFromBucket n r w = Some (evs, w')" and "bucket_at r w = Some b0"
  shows "(\<forall>r'. r' \<noteq> r \<longrightarrow> bucket_at r' w' = bucket_at r' w) \<and> now w \<le> now w'"
  using assms
proof (induct rule: acquireFromBucket_induct)
  case (granted w b)
  then show ?case by simp
next
  case (waits w b evs w')
  have "now w \<le> now (sleep (calculateWaitTime b) (refillBucket r w))"
    using now_sleep[of "refillBucket r w" "calculateWaitTime b"] by simp
  with waits show ?case by simp
qed

lemma acquireFromBucket_zero_time:
  assumes "acquireFromBucket n r w = Some (evs, w')" and "bucket_at r w = Some b0"
    and "0 < refillRate b0"
  shows "\<exists>b. bucket_at r w' = Some b \<and> zero_time b0 \<le> zero_time b \<and>
     zero_time b0 + 1000 / refillRate b0 \<le> now w'"
  using assms
proof (induct rule: acquireFromBucket_induct)
  case (granted w b)
  let ?b1 = "refill (now w) b"
  have rate: "0 < refillRate ?b1" using granted(3) by simp
  have 1: "zero_time b \<le> zero_time ?b1" using granted(3) by (rule zero_time_refill)
  have 2: "zero_time ?b1 \<le> zero_time (consume ?b1)" using rate by (rule zero_time_consume)
  have 3: "zero_time ?b1 + 1000 / refillRate ?b1 \<le> lastRefill ?b1"
    using rate granted(2) by (rule zero_time_granted)
  from 1 2 3 granted(1) show ?case by simp
next
  case (waits w b evs w')
  let ?b1 = "refill (now w) b"
  have 1: "zero_time b \<le> zero_time ?b1" using waits(4) by (rule zero_time_refill)
  from waits(3) waits(4) obtain b' where "bucket_at r w' = Some b'"
    "zero_time ?b1 \<le> zero_time b'" "zero_time ?b1 + 1000 / refillRate ?b1 \<le> now w'"
    by auto
  with 1 show ?case by simp
qed

subsection \<open>Channel buckets on demand\<close>

lemma bucket_at_getOrCreate_same:
  "bucket_at (ChannelRef c) (getOrCreateChannelBucket c w) =
     Some (case channelBuckets w c of
             Some b \<Rightarrow> b
           | None \<Rightarrow> \<lparr>tokens = CHANNEL_CAPACITY, capacity = CHANNEL_CAPACITY,
                       refillRate = CHANNEL_REFILL_RATE, lastRefill = now w\<rparr>)"
  by (simp add: bucket_at_def getOrCreateChannelBucket_def split: option.splits)

lemma bucket_at_getOrCreate_other [simp]:
  "r \<noteq> ChannelRef c \<Longrightarrow> bucket_at r (getOrCreateChannelBucket c w) = bucket_at r w"
  by (auto simp add: bucket_at_def getOrCreateChannelBucket_def split: option.splits bucket_ref.splits)

lemma bucket_at_getOrCreate_present [simp]:
  "bucket_at (ChannelRef c) w = Some b \<Longrightarrow> getOrCreateChannelBucket c w = w"
  by (simp add: bucket_at_def getOrCreateChannelBucket_def)

lemma clock_getOrCreate [simp]:
  "now (getOrCreateChannelBucket c w) = now w"
  "timer_lag (getOrCreateChannelBucket c w) = timer_lag w"
  by (simp_all add: getOrCreateChannelBucket_def split: option.splits)

lemma acquireToken_Some:
  assumes "acquireToken fuel c w = Some (evs, w')"
  obtains evs1 w1 evs2 where "acquireFromBucket fuel GlobalRef w = Some (evs1, w1)"
    and "acquireFromBucket fuel (ChannelRef c) (getOrCreateChannelBucket c w1) = Some (evs2, w')"
    and "evs = evs1 @ evs2"
  using assms by (auto simp add: acquireToken_def split: option.splits prod.splits)

section \<open>Acquisitions return\<close>

lemma waitTime_covers_a_token:
  assumes "0 < refillRate b"
  shows "1 \<le> calculateWaitTime b / 1000 * refillRate b" and "0 \<le> calculateWaitTime b"
proof -
  have le: "1000 / refillRate b \<le> calculateWaitTime b"
    by (simp add: calculateWaitTime_def)
  have "0 < 1000 / refillRate b" using assms by simp
  with le show "0 \<le> calculateWaitTime b" by linarith
  from le have "1000 \<le> calculateWaitTime b * refillRate b"
    using assms by (simp only: pos_divide_le_eq)
  then show "1 \<le> calculateWaitTime b / 1000 * refillRate b" by simp
qed

lemma now_sleep_ge: "now w + max 0 d \<le> now (sleep d w)"
  by (simp add: sleep_def split: list.splits)

lemma acquireFromBucket_returns_within:
  assumes "bucket_at r w = Some b" and "0 < refillRate b" and "1 \<le> capacity b"
    and "1 - tokens (refill (now w) b) \<le> real k"
  shows "\<exists>evs w'. acquireFromBucket (Suc k) r w = Some (evs, w')"
  using assms
proof (induction k arbitrary: w b)
  case 0
  then have "1 \<le> tokens (refill (now w) b)" by simp
  with "0.prems"(1) show ?case by (simp add: acquireFromBucket_granted)
next
  case (Suc k)
  let ?b1 = "refill (now w) b"
  show ?case
  proof (cases "1 \<le> tokens ?b1")
    case True
    with Suc.prems(1) show ?thesis by (simp add: acquireFromBucket_granted)
  next
    case False
    let ?w1 = "sleep (calculateWaitTime b) (refillBucket r w)"
    have b1: "bucket_at r ?w1 = Some ?b1" using Suc.prems(1) by simp
    have "now w + max 0 (calculateWaitTime b) \<le> now ?w1"
      using now_sleep_ge[of "refillBucket r w" "calculateWaitTime b"] by simp
    then have "calculateWaitTime b \<le> now ?w1 - now w" by simp
    then have "calculateWaitTime b / 1000 * refillRate b \<le> (now ?w1 - now w) / 1000 * refillRate b"
      using Suc.prems(2) by (simp add: mult_right_mono divide_right_mono)
    with waitTime_covers_a_token(1)[OF Suc.prems(2)]
    have added: "1 \<le> (now ?w1 - now w) / 1000 * refillRate b" by linarith
    have "tokens (refill (now ?w1) ?b1)
        = min (capacity b) (tokens ?b1 + (now ?w1 - now w) / 1000 * refillRate b)"
      by simp
    moreover have "1 - real k \<le> tokens ?b1 + (now ?w1 - now w) / 1000 * refillRate b"
      using Suc.prems(4) added by simp
    moreover have "1 - real k \<le> capacity b" using Suc.prems(3) by simp
    ultimately have "1 - tokens (refill (now ?w1) ?b1) \<le> real k" by simp
    from Suc.IH[OF b1 _ _ this] Suc.prems(2,3)
    obtain evs w' where "acquireFromBucket (Suc k) r ?w1 = Some (evs, w')" by auto
    with Suc.prems(1) False show ?thesis by (simp add: acquireFromBucket_waits)
  qed
qed

lemma acquireFromBucket_more_fuel:
  assumes "acquireFromBucket n r w = Some x"
  shows "acquireFromBucket (n + m) r w = Some x"
  using assms
proof (induction n arbitrary: w x)
  case 0
  then show ?case by simp
next
  case (Suc n)
  show ?case
  proof (cases "bucket_at r w")
    case None
    with Suc.prems show ?thesis by (simp add: acquireFromBucket_dangling)
  next
    case (Some b)
    show ?thesis
    proof (cases "1 \<le> tokens (refill (now w) b)")
      case True
      with Some Suc.prems show ?thesis by (simp add: acquireFromBucket_granted)
    next
      case False
      let ?w1 = "sleep (calculateWaitTime b) (refillBucket r w)"
      from Suc.prems Some False obtain y where y: "acquireFromBucket n r ?w1 = Some y"
        by (auto simp add: acquireFromBucket_waits)
      from Suc.IH[OF y] have "acquireFromBucket (n + m) r ?w1 = Some y" .
      with y Suc.prems Some False show ?thesis by (simp add: acquireFromBucket_waits)
    qed
  qed
qed

lemma acquireFromBucket_returns:
  assumes "bucket_at r w = Some b" and "0 < refillRate b" and "1 \<le> capacity b"
  shows "\<exists>n evs w'. acquireFromBucket n r w = Some (evs, w')"
proof -
  obtain k :: nat where "1 - tokens (refill (now w) b) \<le> real k"
    using real_arch_simple by blast
  from acquireFromBucket_returns_within[OF assms this] show ?thesis by blast
qed

text \<open>
  With positive rates and room for a token, as in every bucket the service creates,
  \<open>acquireToken\<close> returns when given enough fuel.
\<close>

lemma acquireToken_returns:
  assumes "0 < refillRate (globalBucket w)" and "1 \<le> capacity (globalBucket w)"
    and "case channelBuckets w c of None \<Rightarrow> True | Some b \<Rightarrow> 0 < refillRate b \<and> 1 \<le> capacity b"
  shows "\<exists>fuel evs w'. acquireToken fuel c w = Some (evs, w')"
proof -
  have gb: "bucket_at GlobalRef w = Some (globalBucket w)" by (simp add: bucket_at_def)
  from acquireFromBucket_returns[OF gb assms(1,2)] obtain n1 evs1 w1
    where g: "acquireFromBucket n1 GlobalRef w = Some (evs1, w1)" by blast
  from acquireFromBucket_frame[OF g gb]
  have "bucket_at (ChannelRef c) w1 = bucket_at (ChannelRef c) w" by simp
  then have same: "channelBuckets w1 c = channelBuckets w c" by (simp add: bucket_at_def)
  let ?cb = "case channelBuckets w1 c of
             Some b \<Rightarrow> b
           | None \<Rightarrow> \<lparr>tokens = CHANNEL_CAPACITY, capacity = CHANNEL_CAPACITY,
                       refillRate = CHANNEL_REFILL_RATE, lastRefill = now w1\<rparr>"
  have "0 < refillRate ?cb" "1 \<le> capacity ?cb"
    using assms(3) same
    by (simp_all add: CHANNEL_CAPACITY_def CHANNEL_REFILL_RATE_def split: option.splits)
  from acquireFromBucket_returns[OF bucket_at_getOrCreate_same this] obtain n2 evs2 w2
    where ch: "acquireFromBucket n2 (ChannelRef c) (getOrCreateChannelBucket c w1) = Some (evs2, w2)"
    by blast
  from acquireFromBucket_more_fuel[OF g, of n2]
  have g': "acquireFromBucket (n1 + n2) GlobalRef w = Some (evs1, w1)" .
  from acquireFromBucket_more_fuel[OF ch, of n1]
  have ch': "acquireFromBucket (n1 + n2) (ChannelRef c) (getOrCreateChannelBucket c w1) = Some (evs2, w2)"
    by (simp add: add.commute)
  from g' ch' have "acquireToken (n1 + n2) c w = Some (evs1 @ evs2, w2)"
    by (simp add: acquireToken_def)
  then show ?thesis by blast
qed

lemmas service_eval =
  acquireToken_def acquireFromBucket.simps(2) refillBucket_def update_bucket_def bucket_at_def
  refill_def consume_def calculateWaitTime_def sleep_def handleRateLimit_def
  getOrCreateChannelBucket_def fresh_service_def new_RateLimitService_def
  GLOBAL_CAPACITY_def GLOBAL_REFILL_RATE_def CHANNEL_CAPACITY_def CHANNEL_REFILL_RATE_def
  Let_def eval_nat_numeral

section \<open>Acquisition order\<close>

lemma acquireToken_events:
  assumes "acquireToken fuel c w = Some (evs, w')"
  shows "\<exists>k j. evs =
     polls GlobalRef (calculateWaitTime (globalBucket w)) k @ [Refilled GlobalRef, Took GlobalRef] @
     polls (ChannelRef c)
       (case channelBuckets w c of Some b \<Rightarrow> calculateWaitTime b | None \<Rightarrow> 200) j @
     [Refilled (ChannelRef c), Took (ChannelRef c)]"
proof -
  from assms obtain evs1 w1 evs2
    where g: "acquireFromBucket fuel GlobalRef w = Some (evs1, w1)"
      and ch: "acquireFromBucket fuel (ChannelRef c) (getOrCreateChannelBucket c w1) = Some (evs2, w')"
      and evs: "evs = evs1 @ evs2"
    by (rule acquireToken_Some)
  have gb: "bucket_at GlobalRef w = Some (globalBucket w)" by (simp add: bucket_at_def)
  from acquireFromBucket_events[OF g gb] obtain k
    where k: "evs1 = polls GlobalRef (calculateWaitTime (globalBucket w)) k @ [Refilled GlobalRef, Took GlobalRef]"
    by blast
  from acquireFromBucket_frame[OF g gb]
  have "bucket_at (ChannelRef c) w1 = bucket_at (ChannelRef c) w" by simp
  then have same: "channelBuckets w1 c = channelBuckets w c" by (simp add: bucket_at_def)
  let ?cb = "case channelBuckets w1 c of
             Some b \<Rightarrow> b
           | None \<Rightarrow> \<lparr>tokens = CHANNEL_CAPACITY, capacity = CHANNEL_CAPACITY,
                       refillRate = CHANNEL_REFILL_RATE, lastRefill = now w1\<rparr>"
  from acquireFromBucket_events[OF ch bucket_at_getOrCreate_same] obtain j
    where j: "evs2 = polls (ChannelRef c) (calculateWaitTime ?cb) j @ [Refilled (ChannelRef c), Took (ChannelRef c)]"
    by blast
  have "calculateWaitTime ?cb = (case channelBuckets w c of Some b \<Rightarrow> calculateWaitTime b | None \<Rightarrow> 200)"
    by (simp add: same calculateWaitTime_def CHANNEL_REFILL_RATE_def split: option.splits)
  with k j evs show ?thesis by auto
qed

subsection \<open>The course of an acquisition\<close>







section \<open>The capacity bound\<close>

text \<open>
  C6 (as stated) fails in its last part: the external depletion sets tokens to 0, and
  that is an increase when a refill has driven them below zero. Here a channel is
  depleted for 5000 ms and refilled at once (tokens -25), then depleted again.
\<close>

theorem C6_counterexample:
  "map_option tokens (bucket_at (ChannelRef ''c'')
      (refillBucket (ChannelRef ''c'') (handleRateLimit ''c'' 5000 fresh_service)))
     = Some (- 25) \<and>
   map_option tokens (bucket_at (ChannelRef ''c'')
      (handleRateLimit ''c'' 1000
         (refillBucket (ChannelRef ''c'') (handleRateLimit ''c'' 5000 fresh_service))))
     = Some 0"
  by (simp add: service_eval)

text \<open>
  C6 (amended). Immediately after a refill step the tokens of a bucket are at most its
  capacity, whatever acquisitions, depletions and refills came before (the refill adds
  elapsed seconds times \<open>refillRate\<close> and caps at \<open>capacity\<close>); the same holds after
  a whole acquisition. Tokens may be negative: a refill at a time before \<open>lastRefill\<close>
  of a bucket without tokens leaves less than zero. The deduction of an acquisition
  lowers tokens by exactly 1, and a depletion sets them to exactly 0.
\<close>

theorem C6_tokens_bounded_by_capacity:
  "tokens (refill t b) \<le> capacity b \<and>
   tokens (refill t b) = min (capacity b) (tokens b + (t - lastRefill b) / 1000 * refillRate b) \<and>
   (bucket_at r (refillBucket r w) = Some b' \<longrightarrow> tokens b' \<le> capacity b') \<and>
   (acquireFromBucket n q v = Some (evs, v') \<longrightarrow> bucket_at q v = Some b0 \<longrightarrow>
      (\<exists>b'. bucket_at q v' = Some b' \<and> tokens b' \<le> capacity b' - 1)) \<and>
   (0 < refillRate b \<longrightarrow> tokens b \<le> 0 \<longrightarrow> t < lastRefill b \<longrightarrow> tokens (refill t b) < 0) \<and>
   tokens (consume b) = tokens b - 1 \<and>
   (\<exists>b'. channelBuckets (handleRateLimit c R w) c = Some b' \<and> tokens b' = 0)"
proof (intro conjI impI)
  show "tokens (refill t b) \<le> capacity b" by (rule refill_le_capacity)
  show "tokens (refill t b) = min (capacity b) (tokens b + (t - lastRefill b) / 1000 * refillRate b)"
    by simp
  show "tokens (consume b) = tokens b - 1" by simp
  from handleRateLimit_bucket[of c R w]
  show "\<exists>b'. channelBuckets (handleRateLimit c R w) c = Some b' \<and> tokens b' = 0" by blast
next
  assume "bucket_at r (refillBucket r w) = Some b'"
  then obtain b1 where "b' = refill (now w) b1" by auto
  then show "tokens b' \<le> capacity b'" by simp
next
  assume "acquireFromBucket n q v = Some (evs, v')" "bucket_at q v = Some b0"
  from acquireFromBucket_bucket[OF this]
  show "\<exists>b'. bucket_at q v' = Some b' \<and> tokens b' \<le> capacity b' - 1" by blast
next
  assume rate: "0 < refillRate b" and empty: "tokens b \<le> 0" and early: "t < lastRefill b"
  have "(t - lastRefill b) / 1000 * refillRate b < 0"
    using rate early by (simp add: mult_neg_pos)
  with empty have "tokens b + (t - lastRefill b) / 1000 * refillRate b < 0" by simp
  then show "tokens (refill t b) < 0" by simp
qed

theorem C6_tokens_bounded_by_capacity_witness:
  "(\<exists>b'. bucket_at (ChannelRef ''c'')
       (refillBucket (ChannelRef ''c'') (handleRateLimit ''c'' 5000 fresh_service)) = Some b' \<and>
     tokens b' \<le> capacity b' \<and> tokens b' = - 25 \<and> capacity b' = 5) \<and>
   (\<exists>evs w' b'. acquireFromBucket 1 GlobalRef fresh_service = Some (evs, w') \<and>
     bucket_at GlobalRef w' = Some b' \<and> tokens b' \<le> capacity b' - 1) \<and>
   (0::real) < refillRate \<lparr>tokens = 0, capacity = 5, refillRate = 5, lastRefill = 5000\<rparr> \<and>
   tokens \<lparr>tokens = 0, capacity = 5, refillRate = 5, lastRefill = 5000\<rparr> \<le> (0::real) \<and>
   (0::real) < lastRefill \<lparr>tokens = 0, capacity = 5, refillRate = 5, lastRefill = 5000\<rparr> \<and>
   tokens (refill 0 \<lparr>tokens = 0, capacity = 5, refillRate = 5, lastRefill = 5000\<rparr>) < 0"
proof -
  let ?w = "handleRateLimit ''c'' 5000 fresh_service"
  let ?b = "\<lparr>tokens = 0, capacity = 5, refillRate = 5, lastRefill = 5000\<rparr> :: TokenBucket"
  let ?b' = "\<lparr>tokens = - 25, capacity = 5, refillRate = 5, lastRefill = 0\<rparr> :: TokenBucket"
  have r: "bucket_at (ChannelRef ''c'') (refillBucket (ChannelRef ''c'') ?w) = Some ?b'"
    by (simp add: service_eval)
  obtain evs w' where a: "acquireFromBucket 1 GlobalRef fresh_service = Some (evs, w')"
    by (cases "acquireFromBucket 1 GlobalRef fresh_service") (auto simp add: service_eval)
  have g: "bucket_at GlobalRef fresh_service = Some (globalBucket fresh_service)"
    by (simp add: bucket_at_def)
  from C6_tokens_bounded_by_capacity[where t = 0 and b = ?b and r = "ChannelRef ''c''"
      and w = ?w and b' = ?b' and n = 1 and q = GlobalRef and v = fresh_service
      and evs = evs and v' = w' and ?b0.0 = "globalBucket fresh_service"] r a g
  show ?thesis by auto
qed

section \<open>Cooling down after a depletion signal\<close>

lemma cooling_until_bucket:
  "cooling_until D c w =
     (\<exists>b. bucket_at (ChannelRef c) w = Some b \<and> 0 < refillRate b \<and> D \<le> zero_time b)"
  by (simp add: cooling_until_def bucket_at_def split: option.splits)

lemma cooling_handleRateLimit:
  assumes "case channelBuckets w c of None \<Rightarrow> True | Some b \<Rightarrow> 0 < refillRate b"
  shows "cooling_until (now w + R) c (handleRateLimit c R w)"
proof -
  from handleRateLimit_bucket[of c R w] obtain b
    where b: "channelBuckets (handleRateLimit c R w) c = Some b" "tokens b = 0"
      "lastRefill b = now w + R"
      "refillRate b = (case channelBuckets w c of Some b0 \<Rightarrow> refillRate b0 | None \<Rightarrow> CHANNEL_REFILL_RATE)"
    by blast
  have "0 < refillRate b"
    using assms b(4) by (simp add: CHANNEL_REFILL_RATE_def split: option.splits)
  moreover have "zero_time b = now w + R" using b(2,3) by (simp add: zero_time_def)
  ultimately show ?thesis using b(1) by (simp add: cooling_until_def)
qed

lemma cooling_handleRateLimit_other:
  assumes "c' \<noteq> c"
  shows "cooling_until D c (handleRateLimit c' r w) = cooling_until D c w"
proof -
  have "ChannelRef c \<noteq> ChannelRef c'" using assms by simp
  then have "bucket_at (ChannelRef c) (handleRateLimit c' r w) = bucket_at (ChannelRef c) w"
    by (simp add: handleRateLimit_def Let_def)
  then show ?thesis by (simp add: cooling_until_bucket)
qed

lemma cooling_sleep [simp]: "cooling_until D c (sleep d w) = cooling_until D c w"
  by (simp add: cooling_until_bucket)

lemma cooling_acquireToken:
  assumes "cooling_until D c w" and "acquireToken fuel c' w = Some (evs, w')"
  shows "cooling_until D c w' \<and> (c' = c \<longrightarrow> D < now w')"
proof -
  from assms(2) obtain evs1 w1 evs2
    where g: "acquireFromBucket fuel GlobalRef w = Some (evs1, w1)"
      and ch: "acquireFromBucket fuel (ChannelRef c') (getOrCreateChannelBucket c' w1) = Some (evs2, w')"
    by (rule acquireToken_Some)
  from assms(1) obtain b where b: "bucket_at (ChannelRef c) w = Some b" "0 < refillRate b"
    "D \<le> zero_time b"
    by (auto simp add: cooling_until_bucket)
  have gb: "bucket_at GlobalRef w = Some (globalBucket w)" by (simp add: bucket_at_def)
  from acquireFromBucket_frame[OF g gb]
  have b1: "bucket_at (ChannelRef c) w1 = Some b" using b(1) by simp
  show ?thesis
  proof (cases "c' = c")
    case True
    have here: "bucket_at (ChannelRef c) (getOrCreateChannelBucket c w1) = Some b"
      using b1 by simp
    from acquireFromBucket_zero_time[OF ch[unfolded True] here b(2)]
    obtain b' where b': "bucket_at (ChannelRef c) w' = Some b'" "zero_time b \<le> zero_time b'"
      "zero_time b + 1000 / refillRate b \<le> now w'"
      by blast
    from acquireFromBucket_bucket[OF ch[unfolded True] here] b'(1)
    have "refillRate b' = refillRate b" by auto
    moreover have "0 < 1000 / refillRate b" using b(2) by simp
    then have "D < now w'" using b(3) b'(3) by linarith
    ultimately show ?thesis using b b' True by (auto simp add: cooling_until_bucket)
  next
    case False
    then have ne: "ChannelRef c \<noteq> ChannelRef c'" by simp
    from acquireFromBucket_frame[OF ch bucket_at_getOrCreate_same] ne
    have "bucket_at (ChannelRef c) w' = bucket_at (ChannelRef c) (getOrCreateChannelBucket c' w1)"
      by blast
    also have "\<dots> = Some b" using ne b1 by simp
    finally show ?thesis using b False by (auto simp add: cooling_until_bucket)
  qed
qed

lemma cooling_perform:
  assumes "cooling_until D c w" and "perform fuel acts w = Some w'" and "c \<notin> signalled acts"
  shows "cooling_until D c w'"
  using assms
proof (induction acts arbitrary: w)
  case Nil
  then show ?case by simp
next
  case (Cons a acts)
  show ?case
  proof (cases a)
    case (Elapse d)
    with Cons.prems have "perform fuel acts (sleep d w) = Some w'" "c \<notin> signalled acts"
      by simp_all
    moreover have "cooling_until D c (sleep d w)" using Cons.prems(1) by simp
    ultimately show ?thesis using Cons.IH by blast
  next
    case (Acquire c')
    with Cons.prems obtain evs w1 where a: "acquireToken fuel c' w = Some (evs, w1)"
      and p: "perform fuel acts w1 = Some w'" and s: "c \<notin> signalled acts"
      by (auto split: option.splits)
    from cooling_acquireToken[OF Cons.prems(1) a] have "cooling_until D c w1" by simp
    from Cons.IH[OF this p s] show ?thesis .
  next
    case (Signal c' r)
    with Cons.prems have p: "perform fuel acts (handleRateLimit c' r w) = Some w'"
      and s: "c \<notin> signalled acts" and ne: "c' \<noteq> c"
      by auto
    from ne Cons.prems(1) have "cooling_until D c (handleRateLimit c' r w)"
      by (simp add: cooling_handleRateLimit_other)
    from Cons.IH[OF this p s] show ?thesis .
  qed
qed

text \<open>
  C3 (as stated) fails: a later depletion signal for the same channel, or \<^verbatim>\<open>reset()\<close>,
  ends the cooldown early. After \<open>handleRateLimit c 5000\<close> at time 0, a second signal
  \<open>handleRateLimit c 1\<close> lets \<open>acquireToken c\<close> be granted at 400 ms, and \<^verbatim>\<open>reset()\<close>
  lets it be granted at once.
\<close>

theorem C3_counterexample:
  "now fresh_service = 0 \<and>
   map_option (now \<circ> snd)
     (acquireToken 3 ''c'' (handleRateLimit ''c'' 1 (handleRateLimit ''c'' 5000 fresh_service)))
     = Some 400 \<and>
   map_option (now \<circ> snd)
     (acquireToken 1 ''c'' (reset (handleRateLimit ''c'' 5000 fresh_service)))
     = Some 0"
  by (simp add: service_eval reset_def)

text \<open>
  C3 (amended). \<open>handleRateLimit c R\<close> sets the tokens of the channel bucket to 0 and
  its \<open>lastRefill\<close> to \<open>now + R\<close>; a refill of that bucket at any time before \<open>now + R\<close>
  adds a negative quantity and leaves tokens below zero; and as long as no further
  depletion signal for channel \<open>c\<close> and no \<^verbatim>\<open>reset()\<close> comes in between (time may
  pass, tokens may be acquired for this and other channels, other channels may be
  signalled), an \<open>acquireToken c\<close> that is granted returns later than \<open>R\<close> ms after
  the signal. The refill rate of the bucket is positive, as it is for every bucket the
  service creates.
\<close>

theorem C3_cooldown_honoured:
  "(case channelBuckets w c of None \<Rightarrow> True | Some b \<Rightarrow> 0 < refillRate b) \<longrightarrow>
     (\<exists>b. channelBuckets (handleRateLimit c R w) c = Some b \<and>
        tokens b = 0 \<and> lastRefill b = now w + R \<and>
        (\<forall>t. t < now w + R \<longrightarrow> tokens (refill t b) < 0)) \<and>
     (\<forall>fuel acts w1 fuel' evs w2.
        c \<notin> signalled acts \<longrightarrow>
        perform fuel acts (handleRateLimit c R w) = Some w1 \<longrightarrow>
        acquireToken fuel' c w1 = Some (evs, w2) \<longrightarrow>
        now w + R < now w2)"
proof (intro impI conjI allI)
  assume rate: "case channelBuckets w c of None \<Rightarrow> True | Some b \<Rightarrow> 0 < refillRate b"
  from handleRateLimit_bucket[of c R w] obtain b
    where b: "channelBuckets (handleRateLimit c R w) c = Some b" "tokens b = 0"
      "lastRefill b = now w + R"
      "refillRate b = (case channelBuckets w c of Some b0 \<Rightarrow> refillRate b0 | None \<Rightarrow> CHANNEL_REFILL_RATE)"
    by blast
  have pos: "0 < refillRate b"
    using rate b(4) by (simp add: CHANNEL_REFILL_RATE_def split: option.splits)
  have "tokens (refill t b) < 0" if "t < now w + R" for t
  proof -
    have "(t - lastRefill b) / 1000 * refillRate b < 0"
      using pos that b(3) by (simp add: mult_neg_pos)
    then show ?thesis using b(2) by simp
  qed
  with b show "\<exists>b. channelBuckets (handleRateLimit c R w) c = Some b \<and>
        tokens b = 0 \<and> lastRefill b = now w + R \<and>
        (\<forall>t. t < now w + R \<longrightarrow> tokens (refill t b) < 0)"
    by blast
  fix fuel acts w1 fuel' evs w2
  assume s: "c \<notin> signalled acts"
    and p: "perform fuel acts (handleRateLimit c R w) = Some w1"
    and a: "acquireToken fuel' c w1 = Some (evs, w2)"
  from cooling_handleRateLimit[OF rate]
  have "cooling_until (now w + R) c (handleRateLimit c R w)" .
  from cooling_perform[OF this p s] have "cooling_until (now w + R) c w1" .
  from cooling_acquireToken[OF this a] show "now w + R < now w2" by simp
qed

theorem C3_cooldown_honoured_witness:
  "(case channelBuckets fresh_service ''c'' of None \<Rightarrow> True | Some b \<Rightarrow> 0 < refillRate b) \<and>
   ''c'' \<notin> signalled [Elapse 100, Acquire ''d'', Signal ''d'' 50] \<and>
   (\<exists>w1 evs w2.
      perform 1 [Elapse 100, Acquire ''d'', Signal ''d'' 50]
        (handleRateLimit ''c'' 300 fresh_service) = Some w1 \<and>
      acquireToken 3 ''c'' w1 = Some (evs, w2) \<and> now w2 = 500 \<and>
      now fresh_service + 300 < now w2) \<and>
   acquireToken 2 ''c'' (sleep 100 (handleRateLimit ''c'' 300 fresh_service)) = None \<and>
   (\<exists>b. channelBuckets (handleRateLimit ''c'' 300 fresh_service) ''c'' = Some b \<and>
      tokens b = 0 \<and> lastRefill b = 300 \<and> tokens (refill 0 b) < 0)"
proof -
  let ?w = "handleRateLimit ''c'' 300 fresh_service"
  let ?acts = "[Elapse 100, Acquire ''d'', Signal ''d'' 50]"
  have h: "case channelBuckets fresh_service ''c'' of None \<Rightarrow> True | Some b \<Rightarrow> 0 < refillRate b"
    by (simp add: fresh_service_def new_RateLimitService_def)
  have s: "''c'' \<notin> signalled ?acts" by simp
  have n0: "now fresh_service = 0" by (simp add: fresh_service_def new_RateLimitService_def)
  obtain w1 where p: "perform 1 ?acts ?w = Some w1"
    by (cases "perform 1 ?acts ?w") (auto simp add: service_eval)
  have "map_option (now \<circ> snd)
      (case perform 1 ?acts ?w of None \<Rightarrow> None
       | Some w1 \<Rightarrow> acquireToken 3 ''c'' w1) = Some 500"
    by (simp add: service_eval)
  with p obtain evs w2 where a: "acquireToken 3 ''c'' w1 = Some (evs, w2)" and n: "now w2 = 500"
    by (cases "acquireToken 3 ''c'' w1") auto
  have early: "acquireToken 2 ''c'' (sleep 100 ?w) = None"
    by (simp add: service_eval)
  note both = C3_cooldown_honoured[of fresh_service "''c''" 300, THEN mp, OF h]
  from both[THEN conjunct2, rule_format, OF s p a]
  have late: "now fresh_service + 300 < now w2" .
  from both[THEN conjunct1] obtain b
    where b: "channelBuckets ?w ''c'' = Some b" "tokens b = 0"
      "lastRefill b = now fresh_service + 300"
      "\<forall>t. t < now fresh_service + 300 \<longrightarrow> tokens (refill t b) < 0"
    by blast
  from b(4) n0 have "tokens (refill 0 b) < 0" by (simp del: refill_fields)
  with b n0 have "\<exists>b. channelBuckets ?w ''c'' = Some b \<and>
      tokens b = 0 \<and> lastRefill b = 300 \<and> tokens (refill 0 b) < 0"
    by (simp del: refill_fields)
  with h s p a n late early show ?thesis by blast
qed

end
